theory Spec2Isabelle
  imports Main "HOL-Library.AList" "HOL-Library.Sublist"
begin

section \<open>The orchestrator of the gateway: data model\<close>

text \<open>
  The embedding follows the class \<^verbatim>\<open>OrchestratorService\<close> (the second document of
  \<^verbatim>\<open>src/src/services/monitoring/monitoringService.ts\<close>). Objects of the source are
  records, its string unions are datatypes, a \<^verbatim>\<open>Map\<close> is an association list in
  insertion order, a \<^verbatim>\<open>Set\<close> of strings is a duplicate-free list in insertion
  order, a thrown \<^verbatim>\<open>Error\<close> is a value of type \<open>thrown\<close> and a function that
  may throw returns \<open>thrown + 'a\<close>. Values of type \<^verbatim>\<open>any\<close> that the orchestrator
  only passes on (results, tool inputs, options) are strings. The numbers the orchestrator
  counts with (retries, the concurrency ceiling, timeouts) are the integers they hold. The
  numbers of the source are doubles: the additions the auto-scaling makes on the ceiling
  round their result to the nearest double (\<open>jsAdd\<close> below); the retry counters stay
  far below \<open>2 ^ 53\<close>, where the arithmetic of doubles is exact. Times are
  milliseconds, as natural numbers.
\<close>

type_synonym val = string

datatype task_type = AI | MCP | WorkflowType | Monitoring | OtherType string

datatype status = Pending | Running | Completed | Failed | Cancelled

text \<open>An \<^verbatim>\<open>Error\<close> object: its \<^verbatim>\<open>name\<close> and its \<^verbatim>\<open>message\<close>.\<close>

record thrown =
  err_name :: string
  err_message :: string

definition Error :: "string \<Rightarrow> thrown" where
  "Error msg = \<lparr>err_name = ''Error'', err_message = msg\<rparr>"

text \<open>\<^verbatim>\<open>`${e}`\<close> for an error object, that is \<^verbatim>\<open>Error.prototype.toString\<close>.\<close>

definition error_toString :: "thrown \<Rightarrow> string" where
  "error_toString e =
     (if err_name e = [] then err_message e
      else if err_message e = [] then err_name e
      else err_name e @ '': '' @ err_message e)"

text \<open>
  A \<^verbatim>\<open>TypeError\<close>, and the one thrown when a property \<open>p\<close> is read from
  \<^verbatim>\<open>null\<close> or \<^verbatim>\<open>undefined\<close> (the wording of the message is the one of V8).
\<close>

datatype nullish = JSNull | JSUndefined

definition TypeError :: "string \<Rightarrow> thrown" where
  "TypeError msg = \<lparr>err_name = ''TypeError'', err_message = msg\<rparr>"

definition cannotRead :: "nullish \<Rightarrow> string \<Rightarrow> thrown" where
  "cannotRead n p =
     TypeError (''Cannot read properties of '' @
                (case n of JSNull \<Rightarrow> ''null'' | JSUndefined \<Rightarrow> ''undefined'') @
                '' (reading '' @ [CHR 0x27] @ p @ [CHR 0x27] @ '')'')"

text \<open>
  An element of \<^verbatim>\<open>request.tools\<close>: \<^verbatim>\<open>null\<close> or \<^verbatim>\<open>undefined\<close>, or a value
  with the properties \<^verbatim>\<open>tool\<close>, \<^verbatim>\<open>input\<close> and \<^verbatim>\<open>priority\<close> (each absent
  when \<open>None\<close>).
\<close>

record tool_req =
  tool_tool :: "string option"
  tool_input :: "val option"
  tool_priority :: "string option"

datatype tool_item = NoTool nullish | Tool tool_req

text \<open>
  The value of \<^verbatim>\<open>request.dependencies\<close>. What the code does with it depends on whether
  it is truthy and on whether \<^verbatim>\<open>for ... of\<close> can iterate over it: \<open>Absent\<close> is a
  falsy value that is not iterable (\<^verbatim>\<open>undefined\<close>, \<^verbatim>\<open>null\<close>, \<^verbatim>\<open>false\<close>,
  \<^verbatim>\<open>0\<close>), \<open>EmptyString\<close> is the falsy iterable, \<open>Iterable\<close> is an array (or
  another truthy iterable) with its elements, and \<open>NotIterable\<close> is a truthy value that
  is not iterable (an object such as \<^verbatim>\<open>{}\<close>, a number, \<^verbatim>\<open>true\<close>). An element is
  \<^verbatim>\<open>null\<close> or \<^verbatim>\<open>undefined\<close>, or a value with the properties \<^verbatim>\<open>dependent\<close>
  and \<^verbatim>\<open>dependency\<close>; a property that is absent or not a string is \<open>None\<close>, since
  the code only compares it with task ids.
\<close>

datatype dep_item = NoEdge nullish | Edge "string option" "string option"

datatype dependencies = Absent | EmptyString | Iterable "dep_item list" | NotIterable

text \<open>
  The request body: the fields the orchestrator reads. A field that is absent (or, for
  \<^verbatim>\<open>tools\<close>, not an array) is \<open>None\<close>.
\<close>

record request =
  req_name :: "string option"
  req_description :: "string option"
  req_prompt :: "string option"
  req_messages :: "string list option"
  req_options :: "val option"
  req_tools :: "tool_item list option"
  req_priority :: "string option"
  req_dependencies :: dependencies

datatype payload =
    RequestPayload request
  | ToolPayload tool_req
  | WorkflowPayload string
  | OtherPayload

record task =
  task_id :: string
  task_type :: task_type
  task_priority :: string
  task_payload :: payload
  task_status :: status
  task_createdAt :: nat
  task_startedAt :: "nat option"
  task_completedAt :: "nat option"
  task_result :: "val option"
  task_error :: "string option"
  task_retries :: int
  task_maxRetries :: int
  task_timeout :: "int option"
  task_dependencies :: "string list option"
  task_dependents :: "string list option"

type_synonym results = "(string \<times> val) list"

record workflow =
  wf_id :: string
  wf_name :: string
  wf_description :: "string option"
  wf_tasks :: "task list"
  wf_status :: status
  wf_createdAt :: nat
  wf_startedAt :: "nat option"
  wf_completedAt :: "nat option"
  wf_result :: "results option"
  wf_error :: "string option"

text \<open>
  The state of one \<^verbatim>\<open>OrchestratorService\<close>: the four configuration values it
  reads and its private fields.
\<close>

record orch =
  maxConcurrentTasks :: int
  taskTimeout :: int
  autoScalingEnabled :: bool
  selfHealingEnabled :: bool
  tasks :: "(string \<times> task) list"
  workflows :: "(string \<times> workflow) list"
  runningTasks :: "string list"
  taskQueue :: "task list"
  isAutonomousMode :: bool

subsection \<open>The collaborators\<close>

text \<open>
  What lies outside the class is a world of type \<open>'w\<close>: the clock, the random number
  generator and the services of the configuration. A call to a service takes the world and
  returns its outcome (a value, or the error it throws) with the next world.
  \<^verbatim>\<open>executeWorkflowTask\<close> calls \<^verbatim>\<open>executeWorkflow\<close> on another workflow; that
  nested run is a call of the world as well (\<open>RunWorkflow\<close>), so its outcome is given and
  its effect on the other workflow's record is not part of this model.
\<close>

datatype call =
    Chat "string list" "val option"
  | Complete string "val option"
  | Execute payload
  | ExecuteTool "string option" "val option"
  | RunWorkflow "string option"
  | GetMetrics

type_synonym outcome = "thrown + val"

record store_entry =
  se_key :: string
  se_value :: workflow
  se_ttl :: nat

record 'w env =
  date_now :: "'w \<Rightarrow> nat"
  random36 :: "'w \<Rightarrow> string \<times> 'w"
  collab :: "call \<Rightarrow> 'w \<Rightarrow> outcome \<times> 'w"
  memory_store :: "store_entry \<Rightarrow> 'w \<Rightarrow> thrown option \<times> 'w"

section \<open>The task executor\<close>

text \<open>JavaScript truthiness of an optional string: absent and empty are falsy.\<close>

definition truthy :: "string option \<Rightarrow> bool" where
  "truthy s = (case s of None \<Rightarrow> False | Some x \<Rightarrow> x \<noteq> [])"

definition payload_messages :: "payload \<Rightarrow> string list option" where
  "payload_messages p = (case p of RequestPayload r \<Rightarrow> req_messages r | _ \<Rightarrow> None)"

definition payload_prompt :: "payload \<Rightarrow> string option" where
  "payload_prompt p = (case p of RequestPayload r \<Rightarrow> req_prompt r | _ \<Rightarrow> None)"

definition payload_options :: "payload \<Rightarrow> val option" where
  "payload_options p = (case p of RequestPayload r \<Rightarrow> req_options r | _ \<Rightarrow> None)"

definition payload_tool :: "payload \<Rightarrow> string option" where
  "payload_tool p = (case p of ToolPayload t \<Rightarrow> tool_tool t | _ \<Rightarrow> None)"

definition payload_input :: "payload \<Rightarrow> val option" where
  "payload_input p = (case p of ToolPayload t \<Rightarrow> tool_input t | _ \<Rightarrow> None)"

definition payload_workflowId :: "payload \<Rightarrow> string option" where
  "payload_workflowId p = (case p of WorkflowPayload w \<Rightarrow> Some w | _ \<Rightarrow> None)"

definition executeAITask :: "task \<Rightarrow> call" where
  "executeAITask t =
     (let p = task_payload t in
      case payload_messages p of
        Some ms \<Rightarrow> Chat ms (payload_options p)
      | None \<Rightarrow>
          (case payload_prompt p of
             Some pr \<Rightarrow> if pr \<noteq> [] then Complete pr (payload_options p) else Execute p
           | None \<Rightarrow> Execute p))"

definition executeMCPTask :: "task \<Rightarrow> call" where
  "executeMCPTask t = ExecuteTool (payload_tool (task_payload t)) (payload_input (task_payload t))"

definition executeWorkflowTask :: "task \<Rightarrow> call" where
  "executeWorkflowTask t = RunWorkflow (payload_workflowId (task_payload t))"

definition executeMonitoringTask :: "task \<Rightarrow> call" where
  "executeMonitoringTask t = GetMetrics"

text \<open>The \<^verbatim>\<open>switch\<close> of \<^verbatim>\<open>executeTask\<close>; its default branch throws.\<close>

definition dispatch :: "'w env \<Rightarrow> task \<Rightarrow> 'w \<Rightarrow> outcome \<times> 'w" where
  "dispatch env t w =
     (case task_type t of
        AI \<Rightarrow> collab env (executeAITask t) w
      | MCP \<Rightarrow> collab env (executeMCPTask t) w
      | WorkflowType \<Rightarrow> collab env (executeWorkflowTask t) w
      | Monitoring \<Rightarrow> collab env (executeMonitoringTask t) w
      | OtherType s \<Rightarrow> (Inl (Error (''Unknown task type: '' @ s)), w))"

text \<open>
  \<^verbatim>\<open>executeTask\<close> runs in two synchronous parts around the awaited call: the part
  before it (\<open>startTask\<close>) and the part after it (\<open>settleTask\<close>, the end of the
  \<^verbatim>\<open>try\<close> block or the \<^verbatim>\<open>catch\<close> block).
\<close>

definition startTask :: "nat \<Rightarrow> task \<Rightarrow> task" where
  "startTask now t = t\<lparr>task_status := Running, task_startedAt := Some now\<rparr>"

definition settleTask :: "nat \<Rightarrow> outcome \<Rightarrow> task \<Rightarrow> task" where
  "settleTask now out t =
     (case out of
        Inr r \<Rightarrow> t\<lparr>task_status := Completed, task_completedAt := Some now, task_result := Some r\<rparr>
      | Inl e \<Rightarrow>
          (let t1 = t\<lparr>task_status := Failed, task_completedAt := Some now,
                       task_error := Some (err_message e)\<rparr>
           in if task_retries t1 < task_maxRetries t1
              then t1\<lparr>task_retries := task_retries t1 + 1, task_status := Pending\<rparr>
              else t1))"

definition executeTask :: "'w env \<Rightarrow> task \<Rightarrow> 'w \<Rightarrow> task \<times> outcome \<times> 'w" where
  "executeTask env t w =
     (let t1 = startTask (date_now env w) t;
          (out, w') = dispatch env t1 w
      in (settleTask (date_now env w') out t1, out, w'))"

section \<open>The workflow coordinator\<close>

subsection \<open>Building the task graph\<close>

text \<open>\<^verbatim>\<open>Date.now()\<close> inside a template string: the decimal digits of the number.\<close>

fun dec :: "nat \<Rightarrow> string" where
  "dec n = (if n < 10 then [''0123456789'' ! n] else dec (n div 10) @ [''0123456789'' ! (n mod 10)])"

declare dec.simps [simp del]

text \<open>\<^verbatim>\<open>x || d\<close> on an optional string.\<close>

definition orElse :: "string option \<Rightarrow> string \<Rightarrow> string" where
  "orElse s d = (case s of None \<Rightarrow> d | Some x \<Rightarrow> if x = [] then d else x)"

definition newTask :: "string \<Rightarrow> task_type \<Rightarrow> string \<Rightarrow> payload \<Rightarrow> nat \<Rightarrow> task" where
  "newTask i ty prio p now =
     \<lparr>task_id = i, task_type = ty, task_priority = prio, task_payload = p,
      task_status = Pending, task_createdAt = now, task_startedAt = None,
      task_completedAt = None, task_result = None, task_error = None,
      task_retries = 0, task_maxRetries = 3, task_timeout = None,
      task_dependencies = None, task_dependents = None\<rparr>"

definition newAITask :: "'w env \<Rightarrow> request \<Rightarrow> 'w \<Rightarrow> task \<times> 'w" where
  "newAITask env request w =
     (let (r, w1) = random36 env w;
          i = ''task_ai_'' @ dec (date_now env w) @ ''_'' @ r
      in (newTask i AI (orElse (req_priority request) ''medium'') (RequestPayload request)
            (date_now env w1), w1))"

text \<open>
  The task of one element of \<^verbatim>\<open>request.tools\<close>. The id is computed first; reading
  \<^verbatim>\<open>tool.priority\<close> then throws when the element is \<^verbatim>\<open>null\<close> or
  \<^verbatim>\<open>undefined\<close>.
\<close>

definition newMCPTask :: "'w env \<Rightarrow> tool_item \<Rightarrow> 'w \<Rightarrow> (thrown + task) \<times> 'w" where
  "newMCPTask env tool w =
     (let (r, w1) = random36 env w;
          i = ''task_mcp_'' @ dec (date_now env w) @ ''_'' @ r
      in (case tool of
            NoTool n \<Rightarrow> Inl (cannotRead n ''priority'')
          | Tool t \<Rightarrow>
              Inr (newTask i MCP (orElse (tool_priority t) ''medium'') (ToolPayload t)
                     (date_now env w1)), w1))"

fun newMCPTasks :: "'w env \<Rightarrow> tool_item list \<Rightarrow> 'w \<Rightarrow> (thrown + task list) \<times> 'w" where
  "newMCPTasks env [] w = (Inr [], w)"
| "newMCPTasks env (tool # tools) w =
     (case newMCPTask env tool w of
        (Inl e, w1) \<Rightarrow> (Inl e, w1)
      | (Inr t, w1) \<Rightarrow>
          (case newMCPTasks env tools w1 of
             (Inl e, w2) \<Rightarrow> (Inl e, w2)
           | (Inr ts, w2) \<Rightarrow> (Inr (t # ts), w2)))"

text \<open>\<^verbatim>\<open>tasks.find(t => t.id === i)\<close>, as the position of the task found.\<close>

fun findTask :: "string \<Rightarrow> task list \<Rightarrow> nat option" where
  "findTask i [] = None"
| "findTask i (t # ts) =
     (if task_id t = i then Some 0 else map_option Suc (findTask i ts))"

definition pushDependency :: "string \<Rightarrow> task \<Rightarrow> task" where
  "pushDependency d t =
     t\<lparr>task_dependencies :=
         Some ((case task_dependencies t of None \<Rightarrow> [] | Some ds \<Rightarrow> ds) @ [d])\<rparr>"

definition pushDependent :: "string \<Rightarrow> task \<Rightarrow> task" where
  "pushDependent d t =
     t\<lparr>task_dependents :=
         Some ((case task_dependents t of None \<Rightarrow> [] | Some ds \<Rightarrow> ds) @ [d])\<rparr>"

text \<open>
  \<^verbatim>\<open>tasks.find(t => t.id === v)\<close> for the value \<open>v\<close> of a property: only a string can
  be equal to an id.
\<close>

definition findById :: "string option \<Rightarrow> task list \<Rightarrow> nat option" where
  "findById v ts = (case v of None \<Rightarrow> None | Some i \<Rightarrow> findTask i ts)"

text \<open>
  The body of the loop of \<^verbatim>\<open>setupTaskDependencies\<close> for one element. The callback of
  \<^verbatim>\<open>find\<close> reads \<^verbatim>\<open>dep.dependent\<close>, so an element that is \<^verbatim>\<open>null\<close> or
  \<^verbatim>\<open>undefined\<close> makes it throw as soon as there is a task to call it on; on an empty
  task list the callback is never called.
\<close>

definition wireDependency :: "dep_item \<Rightarrow> task list \<Rightarrow> thrown + task list" where
  "wireDependency dep ts =
     (case dep of
        NoEdge n \<Rightarrow> if ts = [] then Inr ts else Inl (cannotRead n ''dependent'')
      | Edge dependent dependency \<Rightarrow>
          (case (findById dependent ts, findById dependency ts) of
             (Some i, Some j) \<Rightarrow>
               (let ts1 = ts[i := pushDependency (task_id (ts ! j)) (ts ! i)]
                in Inr (ts1[j := pushDependent (task_id (ts1 ! i)) (ts1 ! j)]))
           | _ \<Rightarrow> Inr ts))"

fun wireDependencies :: "dep_item list \<Rightarrow> task list \<Rightarrow> thrown + task list" where
  "wireDependencies [] ts = Inr ts"
| "wireDependencies (dep # deps) ts =
     (case wireDependency dep ts of
        Inl e \<Rightarrow> Inl e
      | Inr ts' \<Rightarrow> wireDependencies deps ts')"

text \<open>
  \<^verbatim>\<open>setupTaskDependencies\<close>: \<^verbatim>\<open>for (const dep of dependencies)\<close> throws a
  \<^verbatim>\<open>TypeError\<close> when the value is not iterable.
\<close>

definition setupTaskDependencies :: "task list \<Rightarrow> dependencies \<Rightarrow> thrown + task list" where
  "setupTaskDependencies ts deps =
     (case deps of
        Iterable items \<Rightarrow> wireDependencies items ts
      | EmptyString \<Rightarrow> Inr ts
      | _ \<Rightarrow> Inl (TypeError ''dependencies is not iterable''))"

definition truthyDependencies :: "dependencies \<Rightarrow> bool" where
  "truthyDependencies deps = (case deps of Absent \<Rightarrow> False | EmptyString \<Rightarrow> False | _ \<Rightarrow> True)"

definition analyzeAndCreateTasks ::
  "'w env \<Rightarrow> request \<Rightarrow> 'w \<Rightarrow> (thrown + task list) \<times> 'w" where
  "analyzeAndCreateTasks env request w =
     (let (ais, w1) =
            (if truthy (req_prompt request) \<or> req_messages request \<noteq> None
             then (let (t, w') = newAITask env request w in ([t], w'))
             else ([], w))
      in case (case req_tools request of
                 Some tools \<Rightarrow> newMCPTasks env tools w1
               | None \<Rightarrow> (Inr [], w1)) of
           (Inl e, w2) \<Rightarrow> (Inl e, w2)
         | (Inr mcps, w2) \<Rightarrow>
             (if truthyDependencies (req_dependencies request)
              then setupTaskDependencies (ais @ mcps) (req_dependencies request)
              else Inr (ais @ mcps), w2))"

text \<open>The argument of a call of \<^verbatim>\<open>memoryService.store\<close>.\<close>

definition snapshot :: "string \<Rightarrow> workflow \<Rightarrow> store_entry" where
  "snapshot workflowId wfl =
     \<lparr>se_key = ''workflow:'' @ workflowId, se_value = wfl, se_ttl = 86400\<rparr>"

text \<open>
  \<^verbatim>\<open>createWorkflow\<close>, in two parts. \<open>newWorkflow\<close> is the part up to the workflow
  object; an error thrown while the tasks are made leaves it before anything is
  registered. Then the workflow is registered and its snapshot is stored; the \<^verbatim>\<open>await\<close>
  of the store is not inside a \<^verbatim>\<open>try\<close>.
\<close>

definition newWorkflow :: "'w env \<Rightarrow> request \<Rightarrow> 'w \<Rightarrow> (thrown + workflow) \<times> 'w" where
  "newWorkflow env request w =
     (let (r, w1) = random36 env w;
          workflowId = ''workflow_'' @ dec (date_now env w) @ ''_'' @ r
      in case analyzeAndCreateTasks env request w1 of
           (Inl e, w2) \<Rightarrow> (Inl e, w2)
         | (Inr ts, w2) \<Rightarrow>
             (Inr \<lparr>wf_id = workflowId,
                   wf_name = orElse (req_name request) (''Workflow '' @ workflowId),
                   wf_description = req_description request,
                   wf_tasks = ts, wf_status = Pending, wf_createdAt = date_now env w2,
                   wf_startedAt = None, wf_completedAt = None, wf_result = None,
                   wf_error = None\<rparr>, w2))"

definition createWorkflow ::
  "'w env \<Rightarrow> request \<Rightarrow> orch \<Rightarrow> 'w \<Rightarrow> (thrown + workflow) \<times> orch \<times> 'w" where
  "createWorkflow env request s w =
     (case newWorkflow env request w of
        (Inl e, w2) \<Rightarrow> (Inl e, s, w2)
      | (Inr wfl, w2) \<Rightarrow>
          (let s1 = s\<lparr>workflows := AList.update (wf_id wfl) wfl (workflows s)\<rparr>;
               (stored, w3) = memory_store env (snapshot (wf_id wfl) wfl) w2
           in (case stored of Some e \<Rightarrow> Inl e | None \<Rightarrow> Inr wfl, s1, w3)))"

subsection \<open>Running a workflow\<close>

text \<open>The filter that computes \<^verbatim>\<open>readyTasks\<close> from the set \<^verbatim>\<open>executedTasks\<close>.\<close>

definition taskReady :: "string list \<Rightarrow> task \<Rightarrow> bool" where
  "taskReady executed t \<longleftrightarrow>
     task_id t \<notin> set executed \<and>
     (case task_dependencies t of
        None \<Rightarrow> True
      | Some deps \<Rightarrow> list_all (\<lambda>d. d \<in> set executed) deps)"

definition readyTasks :: "task list \<Rightarrow> string list \<Rightarrow> task list" where
  "readyTasks ts executed = filter (taskReady executed) ts"

text \<open>
  \<^verbatim>\<open>readyTasks.map(task => this.executeTask(task))\<close> followed by
  \<^verbatim>\<open>Promise.allSettled\<close>: every ready task is executed, in the order of the array; a
  task object is changed where it stands in \<^verbatim>\<open>workflow.tasks\<close>. The outcomes come back
  in the order of the ready tasks. In the source the runs of a batch are all started before
  the first call is answered; here they are made and answered one after the other, in the
  order of the array. Each run changes its own task only, so nothing but the clock readings
  kept in \<^verbatim>\<open>completedAt\<close> depends on that.
\<close>

fun runBatch ::
  "'w env \<Rightarrow> string list \<Rightarrow> task list \<Rightarrow> 'w \<Rightarrow> task list \<times> (task \<times> outcome) list \<times> 'w" where
  "runBatch env executed [] w = ([], [], w)"
| "runBatch env executed (t # ts) w =
     (if taskReady executed t
      then (let (t', out, w1) = executeTask env t w;
                (ts', outs, w2) = runBatch env executed ts w1
            in (t' # ts', (t', out) # outs, w2))
      else (let (ts', outs, w2) = runBatch env executed ts w
            in (t # ts', outs, w2)))"

definition graphError :: thrown where
  "graphError = Error ''Circular dependency detected or no tasks ready to execute''"

definition taskFailed :: "task \<Rightarrow> thrown \<Rightarrow> thrown" where
  "taskFailed t reason = Error (''Task '' @ task_id t @ '' failed: '' @ error_toString reason)"

text \<open>The \<^verbatim>\<open>for\<close> loop over the settled batch: it throws at the first rejection.\<close>

fun collectResults ::
  "(task \<times> outcome) list \<Rightarrow> string list \<Rightarrow> results \<Rightarrow> thrown + (string list \<times> results)" where
  "collectResults [] executed res = Inr (executed, res)"
| "collectResults ((t, out) # rest) executed res =
     (let executed' = List.insert (task_id t) executed
      in case out of
           Inr v \<Rightarrow> collectResults rest executed' (AList.update (task_id t) v res)
         | Inl reason \<Rightarrow> Inl (taskFailed t reason))"

text \<open>One turn of the \<^verbatim>\<open>while\<close> loop: \<open>Inl\<close> when it throws.\<close>

definition workflowPass ::
  "'w env \<Rightarrow> task list \<Rightarrow> string list \<Rightarrow> results \<Rightarrow> 'w \<Rightarrow>
     (thrown \<times> task list \<times> 'w) + (task list \<times> string list \<times> results \<times> 'w)" where
  "workflowPass env ts executed res w =
     (if readyTasks ts executed = [] then Inl (graphError, ts, w)
      else (let (ts', outs, w') = runBatch env executed ts w
            in case collectResults outs executed res of
                 Inl e \<Rightarrow> Inl (e, ts', w')
               | Inr (executed', res') \<Rightarrow> Inr (ts', executed', res', w')))"

function workflowLoop ::
  "'w env \<Rightarrow> task list \<Rightarrow> string list \<Rightarrow> results \<Rightarrow> 'w \<Rightarrow> (thrown + results) \<times> task list \<times> 'w" where
  "workflowLoop env ts executed res w =
     (if length executed < length ts
      then (case workflowPass env ts executed res w of
              Inl (e, ts', w') \<Rightarrow> (Inl e, ts', w')
            | Inr (ts', executed', res', w') \<Rightarrow> workflowLoop env ts' executed' res' w')
      else (Inr res, ts, w))"
  by pat_completeness auto

text \<open>
  Every turn of the loop that does not throw adds an id to \<^verbatim>\<open>executedTasks\<close>, so the
  loop ends: \<open>workflowLoop\<close> is a total function.
\<close>

lemma settleTask_id: "task_id (settleTask now out t) = task_id t"
  by (simp add: settleTask_def Let_def split: sum.splits)

lemma executeTask_id: "executeTask env t w = (t', out, w') \<Longrightarrow> task_id t' = task_id t"
  by (auto simp: executeTask_def Let_def startTask_def settleTask_id split: prod.splits)

lemma runBatch_length: "runBatch env executed ts w = (ts', outs, w') \<Longrightarrow> length ts' = length ts"
  by (induction ts arbitrary: w ts' outs w') (auto simp: Let_def split: if_splits prod.splits)

lemma runBatch_outs_ids:
  "runBatch env executed ts w = (ts', outs, w') \<Longrightarrow>
   map (\<lambda>p. task_id (fst p)) outs = map task_id (readyTasks ts executed)"
proof (induction ts arbitrary: w ts' outs w')
  case Nil
  then show ?case by (simp add: readyTasks_def)
next
  case (Cons t ts)
  show ?case
  proof (cases "taskReady executed t")
    case True
    obtain t1 out w1 where e: "executeTask env t w = (t1, out, w1)"
      by (cases "executeTask env t w") auto
    obtain ts2 outs2 w2 where r: "runBatch env executed ts w1 = (ts2, outs2, w2)"
      by (cases "runBatch env executed ts w1") auto
    from Cons.prems True e r have "outs = (t1, out) # outs2" by simp
    moreover from Cons.IH [OF r] have "map (\<lambda>p. task_id (fst p)) outs2 = map task_id (readyTasks ts executed)" .
    ultimately show ?thesis using True executeTask_id [OF e] by (simp add: readyTasks_def)
  next
    case False
    obtain ts2 outs2 w2 where r: "runBatch env executed ts w = (ts2, outs2, w2)"
      by (cases "runBatch env executed ts w") auto
    from Cons.prems False r have "outs = outs2" by simp
    with Cons.IH [OF r] False show ?thesis by (simp add: readyTasks_def)
  qed
qed

lemma collectResults_length:
  "collectResults outs executed res = Inr (executed', res') \<Longrightarrow> length executed \<le> length executed'"
proof (induction outs arbitrary: executed res)
  case Nil
  then show ?case by simp
next
  case (Cons p outs)
  obtain t out where p: "p = (t, out)" by (cases p)
  with Cons.prems obtain v where v: "out = Inr v"
    and rest: "collectResults outs (List.insert (task_id t) executed) (AList.update (task_id t) v res) = Inr (executed', res')"
    by (cases out) (auto simp: Let_def)
  have "length executed \<le> length (List.insert (task_id t) executed)"
    by (simp add: List.insert_def)
  with Cons.IH [OF rest] show ?case by simp
qed

lemma collectResults_grows:
  assumes "collectResults outs executed res = Inr (executed', res')"
    and "outs \<noteq> []" and "task_id (fst (hd outs)) \<notin> set executed"
  shows "length executed < length executed'"
proof -
  from assms(2) obtain t out rest where o: "outs = (t, out) # rest"
    by (cases outs) auto
  with assms(1) obtain v where
    rest: "collectResults rest (List.insert (task_id t) executed) (AList.update (task_id t) v res) = Inr (executed', res')"
    by (cases out) (auto simp: Let_def)
  from assms(3) o have "length (List.insert (task_id t) executed) = Suc (length executed)"
    by simp
  with collectResults_length [OF rest] show ?thesis by simp
qed

lemma workflowPass_progress:
  assumes "workflowPass env ts executed res w = Inr (ts', executed', res', w')"
  shows "length ts' = length ts \<and> length executed < length executed'"
proof -
  from assms have ne: "readyTasks ts executed \<noteq> []"
    by (auto simp: workflowPass_def split: if_splits)
  obtain ts1 outs w1 where r: "runBatch env executed ts w = (ts1, outs, w1)"
    by (cases "runBatch env executed ts w") auto
  with assms ne have c: "collectResults outs executed res = Inr (executed', res')" and t: "ts' = ts1"
    by (auto simp: workflowPass_def split: sum.splits)
  have ids: "map (\<lambda>p. task_id (fst p)) outs = map task_id (readyTasks ts executed)"
    by (rule runBatch_outs_ids [OF r])
  with ne have one: "outs \<noteq> []" by auto
  from ne obtain x xs where rd: "readyTasks ts executed = x # xs" by (cases "readyTasks ts executed") auto
  then have "x \<in> set (filter (taskReady executed) ts)" by (simp add: readyTasks_def)
  then have "task_id x \<notin> set executed" by (simp add: taskReady_def)
  moreover from ids rd one have "task_id (fst (hd outs)) = task_id x" by (cases outs) auto
  ultimately have "task_id (fst (hd outs)) \<notin> set executed" by simp
  from collectResults_grows [OF c one this] runBatch_length [OF r] t show ?thesis by simp
qed

termination workflowLoop
proof (relation "measure (\<lambda>(env, ts, executed, res, w). length ts - length executed)")
  show "wf (measure (\<lambda>(env, ts, executed, res, w). length ts - length executed))" by simp
next
  fix env :: "'w env" and ts executed res w x2 ts' y executed' ya res' w'
  assume "length executed < length ts"
    and "workflowPass env ts executed res w = Inr x2"
    and "(ts', y) = x2" and "(executed', ya) = y" and "(res', w') = ya"
  then have "workflowPass env ts executed res w = Inr (ts', executed', res', w')" by simp
  from workflowPass_progress [OF this] \<open>length executed < length ts\<close>
  show "((env, ts', executed', res', w'), env, ts, executed, res, w)
        \<in> measure (\<lambda>(env, ts, executed, res, w). length ts - length executed)"
    by auto
qed

declare workflowLoop.simps [simp del]

text \<open>
  The \<^verbatim>\<open>try\<close> and \<^verbatim>\<open>catch\<close> blocks of \<^verbatim>\<open>executeWorkflow\<close>, on the workflow
  record.
\<close>

definition tryWorkflow :: "'w env \<Rightarrow> workflow \<Rightarrow> 'w \<Rightarrow> (thrown + results) \<times> workflow \<times> 'w" where
  "tryWorkflow env wfl w =
     (let wfl1 = wfl\<lparr>wf_status := Running, wf_startedAt := Some (date_now env w)\<rparr>;
          (r, ts, w1) = workflowLoop env (wf_tasks wfl1) [] [] w
      in (case r of
            Inr res \<Rightarrow>
              (r, wfl1\<lparr>wf_tasks := ts, wf_status := Completed,
                      wf_completedAt := Some (date_now env w1), wf_result := Some res\<rparr>, w1)
          | Inl e \<Rightarrow>
              (r, wfl1\<lparr>wf_tasks := ts, wf_status := Failed,
                      wf_completedAt := Some (date_now env w1),
                      wf_error := Some (err_message e)\<rparr>, w1)))"

text \<open>
  \<^verbatim>\<open>executeWorkflow\<close>: the \<^verbatim>\<open>finally\<close> block awaits the store outside any
  \<^verbatim>\<open>try\<close>, so an error of the store replaces the result or the error of the run.
\<close>

definition executeWorkflow ::
  "'w env \<Rightarrow> string \<Rightarrow> orch \<Rightarrow> 'w \<Rightarrow> (thrown + results) \<times> orch \<times> 'w" where
  "executeWorkflow env workflowId s w =
     (case map_of (workflows s) workflowId of
        None \<Rightarrow> (Inl (Error (''Workflow '' @ workflowId @ '' not found'')), s, w)
      | Some wfl \<Rightarrow>
          (let (r, wfl', w1) = tryWorkflow env wfl w;
               s1 = s\<lparr>workflows := AList.update workflowId wfl' (workflows s)\<rparr>;
               (stored, w2) = memory_store env (snapshot workflowId wfl') w1
           in (case stored of Some e \<Rightarrow> Inl e | None \<Rightarrow> r, s1, w2)))"

definition orchestrate ::
  "'w env \<Rightarrow> request \<Rightarrow> orch \<Rightarrow> 'w \<Rightarrow> (thrown + results) \<times> orch \<times> 'w" where
  "orchestrate env request s w =
     (case createWorkflow env request s w of
        (Inl e, s1, w1) \<Rightarrow> (Inl e, s1, w1)
      | (Inr wfl, s1, w1) \<Rightarrow> executeWorkflow env (wf_id wfl) s1 w1)"

section \<open>The autonomous loop\<close>

text \<open>
  The constructor: the defaults, overridden by the values the configuration gives. The
  service starts with empty maps, an empty queue and the autonomous mode off.
\<close>

definition constructor :: "int option \<Rightarrow> int option \<Rightarrow> bool option \<Rightarrow> bool option \<Rightarrow> orch" where
  "constructor maxConcurrent timeout autoScaling selfHealing =
     \<lparr>maxConcurrentTasks = (case maxConcurrent of None \<Rightarrow> 10 | Some n \<Rightarrow> n),
      taskTimeout = (case timeout of None \<Rightarrow> 300 | Some n \<Rightarrow> n),
      autoScalingEnabled = (case autoScaling of None \<Rightarrow> True | Some b \<Rightarrow> b),
      selfHealingEnabled = (case selfHealing of None \<Rightarrow> True | Some b \<Rightarrow> b),
      tasks = [], workflows = [], runningTasks = [], taskQueue = [],
      isAutonomousMode = False\<rparr>"

definition getPriorityWeight :: "string \<Rightarrow> int" where
  "getPriorityWeight priority =
     (if priority = ''critical'' then 4
      else if priority = ''high'' then 3
      else if priority = ''medium'' then 2
      else if priority = ''low'' then 1
      else 2)"

text \<open>
  \<^verbatim>\<open>processTaskQueue\<close>. The pending tasks of the task map, sorted with the comparator
  \<^verbatim>\<open>weight(b) - weight(a)\<close> (the sort of an array is stable); a task keeps its key, so
  that the record in the map can be changed.
\<close>

definition pendingTasks :: "orch \<Rightarrow> (string \<times> task) list" where
  "pendingTasks s =
     sort_key (\<lambda>kt. - getPriorityWeight (task_priority (snd kt)))
       (filter (\<lambda>kt. task_status (snd kt) = Pending) (tasks s))"

definition availableSlots :: "orch \<Rightarrow> int" where
  "availableSlots s = maxConcurrentTasks s - int (length (runningTasks s))"

text \<open>The tasks the \<^verbatim>\<open>for\<close> loop of one pass reaches.\<close>

definition dispatched :: "orch \<Rightarrow> (string \<times> task) list" where
  "dispatched s =
     (if isAutonomousMode s
      then take (nat (min (int (length (pendingTasks s))) (availableSlots s))) (pendingTasks s)
      else [])"

text \<open>
  The body of the \<^verbatim>\<open>for\<close> loop for one task: the id joins \<^verbatim>\<open>runningTasks\<close> and
  \<^verbatim>\<open>executeTask\<close> runs up to its awaited call (\<open>beginTask\<close>); for a task of a type
  the \<^verbatim>\<open>switch\<close> does not know there is no call, and \<^verbatim>\<open>executeTask\<close> runs through its
  \<^verbatim>\<open>catch\<close> block at once. What follows the call is \<open>taskSettled\<close>: the rest of
  \<^verbatim>\<open>executeTask\<close> with the outcome of the call, and the \<^verbatim>\<open>finally\<close> callback that
  takes the id out of \<^verbatim>\<open>runningTasks\<close>.
\<close>

definition beginTask :: "nat \<Rightarrow> task \<Rightarrow> task" where
  "beginTask now t =
     (case task_type t of
        OtherType s \<Rightarrow> settleTask now (Inl (Error (''Unknown task type: '' @ s))) (startTask now t)
      | _ \<Rightarrow> startTask now t)"

definition dispatchOne :: "nat \<Rightarrow> string \<times> task \<Rightarrow> orch \<Rightarrow> orch" where
  "dispatchOne now kt s =
     s\<lparr>runningTasks := List.insert (task_id (snd kt)) (runningTasks s),
       tasks := AList.map_entry (fst kt) (beginTask now) (tasks s)\<rparr>"

definition processTaskQueue :: "'w env \<Rightarrow> orch \<Rightarrow> 'w \<Rightarrow> orch" where
  "processTaskQueue env s w = fold (dispatchOne (date_now env w)) (dispatched s) s"

definition endTask :: "nat \<Rightarrow> outcome \<Rightarrow> task \<Rightarrow> task" where
  "endTask now out t = (case task_type t of OtherType s \<Rightarrow> t | _ \<Rightarrow> settleTask now out t)"

definition taskSettled :: "'w env \<Rightarrow> string \<Rightarrow> outcome \<Rightarrow> orch \<Rightarrow> 'w \<Rightarrow> orch" where
  "taskSettled env k out s w =
     (case map_of (tasks s) k of
        None \<Rightarrow> s
      | Some t \<Rightarrow>
          s\<lparr>tasks := AList.map_entry k (endTask (date_now env w) out) (tasks s),
            runningTasks := removeAll (task_id t) (runningTasks s)\<rparr>)"

text \<open>
  \<^verbatim>\<open>startAutonomousMode\<close> sets the flag and makes the first pass of the task queue;
  the timers it starts are the ticks below. \<^verbatim>\<open>stopAutonomousMode\<close> clears the flag.
  The health check reads the services and writes nothing of the orchestrator's state; it has
  no part in this model, and neither have \<^verbatim>\<open>autoScale\<close> and the readiness probe.
\<close>

definition startAutonomousMode :: "'w env \<Rightarrow> orch \<Rightarrow> 'w \<Rightarrow> orch" where
  "startAutonomousMode env s w = processTaskQueue env (s\<lparr>isAutonomousMode := True\<rparr>) w"

definition stopAutonomousMode :: "orch \<Rightarrow> orch" where
  "stopAutonomousMode s = s\<lparr>isAutonomousMode := False\<rparr>"

text \<open>
  The arithmetic of the source is the one of doubles. \<open>toDouble n\<close> is the double
  nearest to the integer \<open>n\<close>, a tie going to the even significand of 53 bits; every
  integer below \<open>2 ^ 53\<close> in absolute value is a double. \<open>jsAdd\<close> is \<^verbatim>\<open>+\<close> on
  integer-valued doubles (no sum made here comes near the largest finite double).
\<close>

fun bitlen :: "nat \<Rightarrow> nat" where
  "bitlen n = (if n = 0 then 0 else Suc (bitlen (n div 2)))"

declare bitlen.simps [simp del]

definition toDouble :: "int \<Rightarrow> int" where
  "toDouble n =
     (let a = nat \<bar>n\<bar>;
          e = bitlen a - 53;
          q = a div 2 ^ e;
          r = a mod 2 ^ e;
          q' = (if 2 ^ e < 2 * r \<or> (2 * r = 2 ^ e \<and> odd q) then q + 1 else q)
      in sgn n * int (q' * 2 ^ e))"

definition jsAdd :: "int \<Rightarrow> int \<Rightarrow> int" where
  "jsAdd a b = toDouble (a + b)"

text \<open>One evaluation of the timer of \<^verbatim>\<open>startAutoScaling\<close>, after the metrics came back.\<close>

definition autoScalingStep :: "orch \<Rightarrow> orch" where
  "autoScalingStep s =
     (let queueLength = int (length (taskQueue s));
          runningCount = int (length (runningTasks s))
      in if queueLength > 20 \<and> runningCount < maxConcurrentTasks s
         then s\<lparr>maxConcurrentTasks := jsAdd (maxConcurrentTasks s) 2\<rparr>
         else if queueLength < 5 \<and> runningCount > 5 \<and> maxConcurrentTasks s > 5
         then s\<lparr>maxConcurrentTasks := jsAdd (maxConcurrentTasks s) (- 1)\<rparr>
         else s)"

definition autoScalingTick :: "'w env \<Rightarrow> orch \<Rightarrow> 'w \<Rightarrow> orch \<times> 'w" where
  "autoScalingTick env s w =
     (case collab env GetMetrics w of
        (Inl e, w') \<Rightarrow> (s, w')
      | (Inr metrics, w') \<Rightarrow> (autoScalingStep s, w'))"

text \<open>One evaluation of the timer of \<^verbatim>\<open>startSelfHealing\<close>: its two sweeps.\<close>

definition healFailed :: "task \<Rightarrow> task" where
  "healFailed t =
     (if task_status t = Failed \<and> task_retries t < task_maxRetries t
      then t\<lparr>task_status := Pending, task_retries := task_retries t + 1\<rparr>
      else t)"

definition effectiveTimeout :: "int \<Rightarrow> task \<Rightarrow> int" where
  "effectiveTimeout dflt t =
     (case task_timeout t of None \<Rightarrow> dflt | Some n \<Rightarrow> if n = 0 then dflt else n)"

definition isStuck :: "nat \<Rightarrow> int \<Rightarrow> task \<Rightarrow> bool" where
  "isStuck now dflt t \<longleftrightarrow>
     (case task_startedAt t of
        None \<Rightarrow> False
      | Some started \<Rightarrow>
          task_status t = Running \<and> int now - int started > effectiveTimeout dflt t * 1000)"

definition cancelStuck :: "task \<Rightarrow> task" where
  "cancelStuck t = t\<lparr>task_status := Failed, task_error := Some ''Task timed out''\<rparr>"

definition healStuck :: "nat \<Rightarrow> int \<Rightarrow> task \<Rightarrow> task" where
  "healStuck now dflt t = (if isStuck now dflt t then cancelStuck t else t)"

definition selfHealingTick :: "'w env \<Rightarrow> orch \<Rightarrow> 'w \<Rightarrow> orch" where
  "selfHealingTick env s w =
     (let healed = map (\<lambda>kt. (fst kt, healFailed (snd kt))) (tasks s);
          stuck = filter (\<lambda>kt. isStuck (date_now env w) (taskTimeout s) (snd kt)) healed
      in s\<lparr>tasks := map (\<lambda>kt. (fst kt, healStuck (date_now env w) (taskTimeout s) (snd kt))) healed,
           runningTasks := fold (\<lambda>kt. removeAll (task_id (snd kt))) stuck (runningTasks s)\<rparr>)"

subsection \<open>Queries\<close>

definition status_name :: "status \<Rightarrow> string" where
  "status_name st =
     (case st of Pending \<Rightarrow> ''pending'' | Running \<Rightarrow> ''running'' | Completed \<Rightarrow> ''completed''
      | Failed \<Rightarrow> ''failed'' | Cancelled \<Rightarrow> ''cancelled'')"

definition getTask :: "orch \<Rightarrow> string \<Rightarrow> task option" where
  "getTask s taskId = map_of (tasks s) taskId"

definition getWorkflow :: "orch \<Rightarrow> string \<Rightarrow> workflow option" where
  "getWorkflow s workflowId = map_of (workflows s) workflowId"

definition listTasks :: "orch \<Rightarrow> string option \<Rightarrow> task list" where
  "listTasks s st =
     (if truthy st
      then filter (\<lambda>t. Some (status_name (task_status t)) = st) (map snd (tasks s))
      else map snd (tasks s))"

definition listWorkflows :: "orch \<Rightarrow> string option \<Rightarrow> workflow list" where
  "listWorkflows s st =
     (if truthy st
      then filter (\<lambda>wfl. Some (status_name (wf_status wfl)) = st) (map snd (workflows s))
      else map snd (workflows s))"

subsection \<open>Runs of the service\<close>

text \<open>
  A run of the service is a sequence of the events that change its state: the calls of its
  public methods, the passes of the task queue, the settlements of dispatched tasks and the
  ticks of the two timers. The timers are allowed to tick at any moment, which covers every
  schedule the source can produce.
\<close>

datatype event =
    CreateWorkflow request
  | ExecuteWorkflow string
  | Orchestrate request
  | StartAutonomousMode
  | StopAutonomousMode
  | ProcessTaskQueue
  | TaskSettled string outcome
  | AutoScalingTick
  | SelfHealingTick

definition step :: "'w env \<Rightarrow> event \<Rightarrow> orch \<times> 'w \<Rightarrow> orch \<times> 'w" where
  "step env ev sw =
     (let s = fst sw; w = snd sw in
      case ev of
        CreateWorkflow request \<Rightarrow> snd (createWorkflow env request s w)
      | ExecuteWorkflow workflowId \<Rightarrow> snd (executeWorkflow env workflowId s w)
      | Orchestrate request \<Rightarrow> snd (orchestrate env request s w)
      | StartAutonomousMode \<Rightarrow> (startAutonomousMode env s w, w)
      | StopAutonomousMode \<Rightarrow> (stopAutonomousMode s, w)
      | ProcessTaskQueue \<Rightarrow> (processTaskQueue env s w, w)
      | TaskSettled k out \<Rightarrow> (taskSettled env k out s w, w)
      | AutoScalingTick \<Rightarrow> autoScalingTick env s w
      | SelfHealingTick \<Rightarrow> (selfHealingTick env s w, w))"

definition run :: "'w env \<Rightarrow> event list \<Rightarrow> orch \<times> 'w \<Rightarrow> orch \<times> 'w" where
  "run env evs sw = fold (step env) evs sw"

section \<open>What each operation leaves alone\<close>

text \<open>
  The three methods that run workflows write the workflow registry and nothing else of the
  orchestrator's state; a pass of the task queue never writes the configuration.
\<close>

lemma createWorkflow_frame:
  "\<exists>ws. fst (snd (createWorkflow env request s w)) = s\<lparr>workflows := ws\<rparr>"
  by (auto simp: createWorkflow_def Let_def split: prod.splits sum.splits
           intro: exI [of _ "workflows s"])

lemma executeWorkflow_frame:
  "\<exists>ws. fst (snd (executeWorkflow env workflowId s w)) = s\<lparr>workflows := ws\<rparr>"
  by (cases "map_of (workflows s) workflowId")
     (auto simp: executeWorkflow_def Let_def split: prod.splits intro: exI [of _ "workflows s"])

lemma orchestrate_frame:
  "\<exists>ws. fst (snd (orchestrate env request s w)) = s\<lparr>workflows := ws\<rparr>"
proof (cases "createWorkflow env request s w")
  case (fields r s1 w1)
  from createWorkflow_frame [of env request s w] fields obtain ws where s1: "s1 = s\<lparr>workflows := ws\<rparr>"
    by auto
  show ?thesis
  proof (cases r)
    case (Inl e)
    with fields s1 show ?thesis by (auto simp: orchestrate_def)
  next
    case (Inr wfl)
    from executeWorkflow_frame [of env "wf_id wfl" s1 w1] obtain ws' where
      "fst (snd (executeWorkflow env (wf_id wfl) s1 w1)) = s1\<lparr>workflows := ws'\<rparr>" by auto
    with fields s1 Inr show ?thesis by (auto simp: orchestrate_def)
  qed
qed

lemma fold_dispatchOne_frame:
  "maxConcurrentTasks (fold (dispatchOne now) kts s) = maxConcurrentTasks s \<and>
   taskQueue (fold (dispatchOne now) kts s) = taskQueue s \<and>
   workflows (fold (dispatchOne now) kts s) = workflows s \<and>
   isAutonomousMode (fold (dispatchOne now) kts s) = isAutonomousMode s"
  by (induction kts arbitrary: s) (auto simp: dispatchOne_def)

lemma step_maxConcurrentTasks:
  "maxConcurrentTasks (fst (step env ev (s, w))) = maxConcurrentTasks s \<or>
   (ev = AutoScalingTick \<and> maxConcurrentTasks (fst (step env ev (s, w))) = maxConcurrentTasks (autoScalingStep s))"
proof (cases ev)
  case (CreateWorkflow request)
  with createWorkflow_frame [of env request s w] show ?thesis by (auto simp: step_def)
next
  case (ExecuteWorkflow workflowId)
  with executeWorkflow_frame [of env workflowId s w] show ?thesis by (auto simp: step_def)
next
  case (Orchestrate request)
  with orchestrate_frame [of env request s w] show ?thesis by (auto simp: step_def)
next
  case StartAutonomousMode
  then show ?thesis
    by (simp add: step_def startAutonomousMode_def processTaskQueue_def fold_dispatchOne_frame)
next
  case StopAutonomousMode
  then show ?thesis by (simp add: step_def stopAutonomousMode_def)
next
  case ProcessTaskQueue
  then show ?thesis by (simp add: step_def processTaskQueue_def fold_dispatchOne_frame)
next
  case (TaskSettled k out)
  then show ?thesis by (simp add: step_def taskSettled_def split: option.splits)
next
  case AutoScalingTick
  then show ?thesis by (auto simp: step_def autoScalingTick_def split: prod.splits sum.splits)
next
  case SelfHealingTick
  then show ?thesis by (simp add: step_def selfHealingTick_def Let_def)
qed

text \<open>
  What \<^verbatim>\<open>createWorkflow\<close> and \<^verbatim>\<open>executeWorkflow\<close> return and leave, in terms of
  their call of the store.
\<close>

lemma createWorkflow_result:
  assumes "newWorkflow env request w = (Inr wfl, wc)"
  shows "fst (createWorkflow env request s w) =
           (case fst (memory_store env (snapshot (wf_id wfl) wfl) wc) of
              Some e \<Rightarrow> Inl e | None \<Rightarrow> Inr wfl)"
    and "fst (snd (createWorkflow env request s w)) =
           s\<lparr>workflows := AList.update (wf_id wfl) wfl (workflows s)\<rparr>"
  using assms by (simp_all add: createWorkflow_def Let_def split: prod.splits option.splits)

lemma executeWorkflow_result:
  assumes "map_of (workflows s) workflowId = Some wfl" and "tryWorkflow env wfl w = (r, wfl', w1)"
  shows "fst (executeWorkflow env workflowId s w) =
           (case fst (memory_store env (snapshot workflowId wfl') w1) of
              Some e \<Rightarrow> Inl e | None \<Rightarrow> r)"
    and "fst (snd (executeWorkflow env workflowId s w)) =
           s\<lparr>workflows := AList.update workflowId wfl' (workflows s)\<rparr>"
  using assms by (simp_all add: executeWorkflow_def Let_def split: prod.splits option.splits)

text \<open>
  Nothing writes the task map: when it is empty it stays empty, and then the queries, the
  passes of the task queue and the self-healing timer find nothing.
\<close>

lemma step_tasks_empty:
  assumes "tasks s = []"
  shows "tasks (fst (step env ev (s, w))) = []"
proof (cases ev)
  case (CreateWorkflow request)
  with createWorkflow_frame [of env request s w] assms show ?thesis by (auto simp: step_def)
next
  case (ExecuteWorkflow workflowId)
  with executeWorkflow_frame [of env workflowId s w] assms show ?thesis by (auto simp: step_def)
next
  case (Orchestrate request)
  with orchestrate_frame [of env request s w] assms show ?thesis by (auto simp: step_def)
next
  case StartAutonomousMode
  with assms show ?thesis
    by (simp add: step_def startAutonomousMode_def processTaskQueue_def dispatched_def
          pendingTasks_def)
next
  case StopAutonomousMode
  with assms show ?thesis by (simp add: step_def stopAutonomousMode_def)
next
  case ProcessTaskQueue
  with assms show ?thesis
    by (simp add: step_def processTaskQueue_def dispatched_def pendingTasks_def)
next
  case (TaskSettled k out)
  with assms show ?thesis by (simp add: step_def taskSettled_def)
next
  case AutoScalingTick
  with assms show ?thesis
    by (auto simp: step_def autoScalingTick_def autoScalingStep_def Let_def
             split: prod.splits sum.splits)
next
  case SelfHealingTick
  with assms show ?thesis by (simp add: step_def selfHealingTick_def Let_def)
qed

lemma run_tasks_empty:
  "tasks (fst sw) = [] \<Longrightarrow> tasks (fst (run env evs sw)) = []"
proof (induction evs arbitrary: sw)
  case Nil
  then show ?case by (simp add: run_def)
next
  case (Cons ev evs)
  obtain s w where sw: "sw = (s, w)" by (cases sw)
  with Cons.prems have "tasks (fst (step env ev (s, w))) = []" by (simp add: step_tasks_empty)
  from Cons.IH [OF this] sw show ?case by (simp add: run_def)
qed

lemma empty_task_map:
  assumes "tasks s = []"
  shows "getTask s taskId = None" "listTasks s st = []" "dispatched s = []"
    "processTaskQueue env s w = s" "selfHealingTick env s w = s"
  using assms
  by (simp_all add: getTask_def listTasks_def dispatched_def pendingTasks_def
        processTaskQueue_def selfHealingTick_def)

lemma createWorkflow_tasks: "tasks (fst (snd (createWorkflow env request s w))) = tasks s"
  using createWorkflow_frame [of env request s w] by auto





section \<open>The life of one task\<close>

text \<open>
  What the code can do to one task record, one synchronous piece at a time: the executor
  starts it (\<^verbatim>\<open>executeTask\<close> up to the awaited call), the executor settles it (the rest
  of \<^verbatim>\<open>executeTask\<close>, with the outcome of the call), the self-healing timer requeues it
  (its first sweep) or checks it for a timeout (its second sweep). A list of such events is
  any interleaving of executor runs and sweeps on the task.
\<close>

datatype taskEvent =
    Started nat
  | Settled nat outcome
  | Requeued
  | Swept nat int

fun applyTaskEvent :: "taskEvent \<Rightarrow> task \<Rightarrow> task" where
  "applyTaskEvent (Started now) t = startTask now t"
| "applyTaskEvent (Settled now out) t = settleTask now out t"
| "applyTaskEvent Requeued t = healFailed t"
| "applyTaskEvent (Swept now dflt) t = healStuck now dflt t"

definition taskEvents :: "taskEvent list \<Rightarrow> task \<Rightarrow> task" where
  "taskEvents evs t = fold applyTaskEvent evs t"

section \<open>What one turn of the workflow loop does\<close>

text \<open>The ids a task depends on, as a set.\<close>

definition depsOf :: "task \<Rightarrow> string set" where
  "depsOf t = (case task_dependencies t of None \<Rightarrow> {} | Some deps \<Rightarrow> set deps)"

text \<open>What a batch does to one task of the list.\<close>

definition batchRel :: "string list \<Rightarrow> task \<Rightarrow> task \<Rightarrow> bool" where
  "batchRel executed t t' \<longleftrightarrow>
     task_id t' = task_id t \<and> task_dependencies t' = task_dependencies t \<and>
     task_type t' = task_type t \<and> (\<not> taskReady executed t \<longrightarrow> t' = t)"

lemma settleTask_fields:
  "task_id (settleTask now out t) = task_id t"
  "task_dependencies (settleTask now out t) = task_dependencies t"
  "task_type (settleTask now out t) = task_type t"
  by (simp_all add: settleTask_def Let_def split: sum.splits)

lemma executeTask_fields:
  assumes "executeTask env t w = (t', out, w')"
  shows "task_id t' = task_id t" "task_dependencies t' = task_dependencies t"
    "task_type t' = task_type t"
    "out = Inr v \<Longrightarrow> task_status t' = Completed"
proof -
  from assms have t': "t' = settleTask (date_now env w') out (startTask (date_now env w) t)"
    by (auto simp: executeTask_def Let_def split: prod.splits)
  show "task_id t' = task_id t" "task_dependencies t' = task_dependencies t"
    "task_type t' = task_type t"
    by (simp_all add: t' settleTask_fields startTask_def)
  show "out = Inr v \<Longrightarrow> task_status t' = Completed"
    by (simp add: t' settleTask_def)
qed

lemma taskReady_cong:
  "task_id t' = task_id t \<Longrightarrow> task_dependencies t' = task_dependencies t \<Longrightarrow>
   taskReady executed t' = taskReady executed t"
  by (simp add: taskReady_def)

lemma runBatch_rel:
  "runBatch env executed ts w = (ts', outs, w') \<Longrightarrow> list_all2 (batchRel executed) ts ts'"
proof (induction ts arbitrary: w ts' outs w')
  case Nil
  then show ?case by simp
next
  case (Cons t ts)
  show ?case
  proof (cases "taskReady executed t")
    case True
    obtain t1 out w1 where e: "executeTask env t w = (t1, out, w1)"
      by (cases "executeTask env t w") auto
    obtain ts2 outs2 w2 where r: "runBatch env executed ts w1 = (ts2, outs2, w2)"
      by (cases "runBatch env executed ts w1") auto
    from Cons.prems True e r have "ts' = t1 # ts2" by simp
    with Cons.IH [OF r] executeTask_fields(1-3) [OF e] True show ?thesis
      by (simp add: batchRel_def)
  next
    case False
    obtain ts2 outs2 w2 where r: "runBatch env executed ts w = (ts2, outs2, w2)"
      by (cases "runBatch env executed ts w") auto
    from Cons.prems False r have "ts' = t # ts2" by simp
    with Cons.IH [OF r] False show ?thesis by (simp add: batchRel_def)
  qed
qed

lemma runBatch_outs:
  "runBatch env executed ts w = (ts', outs, w') \<Longrightarrow>
   map fst outs = readyTasks ts' executed \<and>
   (\<forall>p\<in>set outs. \<forall>v. snd p = Inr v \<longrightarrow> task_status (fst p) = Completed)"
proof (induction ts arbitrary: w ts' outs w')
  case Nil
  then show ?case by (simp add: readyTasks_def)
next
  case (Cons t ts)
  show ?case
  proof (cases "taskReady executed t")
    case True
    obtain t1 out w1 where e: "executeTask env t w = (t1, out, w1)"
      by (cases "executeTask env t w") auto
    obtain ts2 outs2 w2 where r: "runBatch env executed ts w1 = (ts2, outs2, w2)"
      by (cases "runBatch env executed ts w1") auto
    from Cons.prems True e r have eq: "ts' = t1 # ts2" "outs = (t1, out) # outs2" by simp_all
    have "taskReady executed t1"
      using True taskReady_cong [OF executeTask_fields(1,2) [OF e]] by simp
    with Cons.IH [OF r] eq executeTask_fields(4) [OF e] show ?thesis
      by (auto simp: readyTasks_def)
  next
    case False
    obtain ts2 outs2 w2 where r: "runBatch env executed ts w = (ts2, outs2, w2)"
      by (cases "runBatch env executed ts w") auto
    from Cons.prems False r have "ts' = t # ts2" "outs = outs2" by simp_all
    with Cons.IH [OF r] False show ?thesis by (simp add: readyTasks_def)
  qed
qed

lemma collectResults_Inr:
  "collectResults outs executed res = Inr (executed', res') \<Longrightarrow>
   set executed' = set executed \<union> (\<lambda>p. task_id (fst p)) ` set outs \<and>
   (\<forall>p\<in>set outs. \<exists>v. snd p = Inr v) \<and>
   (distinct executed \<longrightarrow> distinct executed')"
proof (induction outs arbitrary: executed res)
  case Nil
  then show ?case by simp
next
  case (Cons p outs)
  obtain t out where p: "p = (t, out)" by (cases p)
  with Cons.prems obtain v where v: "out = Inr v"
    and rest: "collectResults outs (List.insert (task_id t) executed)
                 (AList.update (task_id t) v res) = Inr (executed', res')"
    by (cases out) (auto simp: Let_def)
  from Cons.IH [OF rest] p v show ?case by auto
qed

lemma collectResults_Inl:
  "collectResults outs executed res = Inl e \<Longrightarrow>
   \<exists>t reason. (t, Inl reason) \<in> set outs \<and> e = taskFailed t reason"
proof (induction outs arbitrary: executed res)
  case Nil
  then show ?case by simp
next
  case (Cons p outs)
  obtain t out where p: "p = (t, out)" by (cases p)
  show ?case
  proof (cases out)
    case (Inl reason)
    with Cons.prems p show ?thesis by (auto simp: Let_def)
  next
    case (Inr v)
    with Cons.prems p have
      "collectResults outs (List.insert (task_id t) executed) (AList.update (task_id t) v res) = Inl e"
      by (simp add: Let_def)
    from Cons.IH [OF this] show ?thesis by auto
  qed
qed

lemma batchRel_ids: "list_all2 (batchRel executed) ts ts' \<Longrightarrow> map task_id ts' = map task_id ts"
  by (induction rule: list_all2_induct) (simp_all add: batchRel_def)

text \<open>One turn of the loop that does not throw.\<close>

lemma workflowPass_Inr:
  assumes "workflowPass env ts executed res w = Inr (ts', executed', res', w')"
  shows "list_all2 (batchRel executed) ts ts'"
    and "set executed' = set executed \<union> task_id ` set (readyTasks ts executed)"
    and "distinct executed \<Longrightarrow> distinct executed'"
    and "\<forall>t\<in>set (readyTasks ts' executed). task_status t = Completed"
proof -
  from assms have ne: "readyTasks ts executed \<noteq> []"
    by (auto simp: workflowPass_def split: if_splits)
  obtain ts1 outs w1 where r: "runBatch env executed ts w = (ts1, outs, w1)"
    by (cases "runBatch env executed ts w") auto
  with assms ne have c: "collectResults outs executed res = Inr (executed', res')" and t: "ts' = ts1"
    by (auto simp: workflowPass_def split: sum.splits)
  show rel: "list_all2 (batchRel executed) ts ts'" using runBatch_rel [OF r] t by simp
  have ids: "map (\<lambda>p. task_id (fst p)) outs = map task_id (readyTasks ts executed)"
    by (rule runBatch_outs_ids [OF r])
  have "(\<lambda>p. task_id (fst p)) ` set outs = set (map (\<lambda>p. task_id (fst p)) outs)" by simp
  also have "\<dots> = task_id ` set (readyTasks ts executed)" unfolding ids by simp
  finally show "set executed' = set executed \<union> task_id ` set (readyTasks ts executed)"
    using collectResults_Inr [OF c] by simp
  show "distinct executed \<Longrightarrow> distinct executed'" using collectResults_Inr [OF c] by simp
  from runBatch_outs [OF r] t have m: "map fst outs = readyTasks ts' executed"
    and compl: "\<forall>p\<in>set outs. \<forall>v. snd p = Inr v \<longrightarrow> task_status (fst p) = Completed" by simp_all
  show "\<forall>t\<in>set (readyTasks ts' executed). task_status t = Completed"
  proof
    fix t assume "t \<in> set (readyTasks ts' executed)"
    with m have "t \<in> fst ` set outs" by (metis set_map)
    then obtain p where p: "p \<in> set outs" "t = fst p" by auto
    with collectResults_Inr [OF c] obtain v where "snd p = Inr v" by auto
    with compl p show "task_status t = Completed" by auto
  qed
qed

text \<open>One turn of the loop that throws.\<close>

lemma workflowPass_Inl:
  assumes "workflowPass env ts executed res w = Inl (e, ts', w')"
  shows "list_all2 (batchRel executed) ts ts'"
    and "e = graphError \<or> (\<exists>t reason. e = taskFailed t reason)"
    and "readyTasks ts executed \<noteq> [] \<Longrightarrow>
           \<exists>t reason. (t, Inl reason) \<in> set (fst (snd (runBatch env executed ts w))) \<and>
             e = taskFailed t reason"
proof -
  have refl: "list_all2 (batchRel executed) ts ts"
    by (simp add: list_all2_refl batchRel_def)
  show "list_all2 (batchRel executed) ts ts'"
  proof (cases "readyTasks ts executed = []")
    case True
    with assms refl show ?thesis by (simp add: workflowPass_def)
  next
    case False
    obtain ts1 outs w1 where r: "runBatch env executed ts w = (ts1, outs, w1)"
      by (cases "runBatch env executed ts w") auto
    with assms False have "ts' = ts1" by (auto simp: workflowPass_def split: sum.splits)
    with runBatch_rel [OF r] show ?thesis by simp
  qed
  show "e = graphError \<or> (\<exists>t reason. e = taskFailed t reason)"
  proof (cases "readyTasks ts executed = []")
    case True
    with assms show ?thesis by (simp add: workflowPass_def)
  next
    case False
    obtain ts1 outs w1 where r: "runBatch env executed ts w = (ts1, outs, w1)"
      by (cases "runBatch env executed ts w") auto
    with assms False have "collectResults outs executed res = Inl e"
      by (auto simp: workflowPass_def split: sum.splits)
    from collectResults_Inl [OF this] show ?thesis by auto
  qed
  show "readyTasks ts executed \<noteq> [] \<Longrightarrow>
           \<exists>t reason. (t, Inl reason) \<in> set (fst (snd (runBatch env executed ts w))) \<and>
             e = taskFailed t reason"
  proof -
    assume ne: "readyTasks ts executed \<noteq> []"
    obtain ts1 outs w1 where r: "runBatch env executed ts w = (ts1, outs, w1)"
      by (cases "runBatch env executed ts w") auto
    with assms ne have "collectResults outs executed res = Inl e"
      by (auto simp: workflowPass_def split: sum.splits)
    from collectResults_Inl [OF this] r show ?thesis by simp
  qed
qed

text \<open>
  The states in which the \<^verbatim>\<open>while\<close> loop of \<^verbatim>\<open>executeWorkflow\<close> evaluates its
  condition, for the task list \<open>ts0\<close> and the world \<open>w0\<close> it starts from: the tasks, the
  set \<^verbatim>\<open>executedTasks\<close>, the results and the world.
\<close>

inductive loopHead ::
  "'w env \<Rightarrow> task list \<Rightarrow> 'w \<Rightarrow> task list \<Rightarrow> string list \<Rightarrow> results \<Rightarrow> 'w \<Rightarrow> bool"
  for env :: "'w env" and ts0 :: "task list" and w0 :: 'w where
  start: "loopHead env ts0 w0 ts0 [] [] w0"
| turn: "loopHead env ts0 w0 ts executed res w \<Longrightarrow> length executed < length ts \<Longrightarrow>
         workflowPass env ts executed res w = Inr (ts', executed', res', w') \<Longrightarrow>
         loopHead env ts0 w0 ts' executed' res' w'"

code_pred loopHead .

text \<open>These states are the ones the loop goes through: from each, it ends as it ends.\<close>

lemma loopHead_result:
  "loopHead env ts0 w0 ts executed res w \<Longrightarrow>
   workflowLoop env ts executed res w = workflowLoop env ts0 [] [] w0"
proof (induction rule: loopHead.induct)
  case start
  show ?case by simp
next
  case (turn ts executed res w ts' executed' res' w')
  from turn.hyps(2,3) have
    "workflowLoop env ts executed res w = workflowLoop env ts' executed' res' w'"
    by (simp add: workflowLoop.simps [of env ts executed res w])
  with turn.IH show ?case by simp
qed

text \<open>When the loop throws, it throws in a turn that starts in one of these states.\<close>

lemma workflowLoop_fails_at:
  assumes "loopHead env ts0 w0 ts executed res w"
    and "workflowLoop env ts executed res w = (Inl e, ts', w')"
  shows "\<exists>ts1 executed1 res1 w1.
           loopHead env ts0 w0 ts1 executed1 res1 w1 \<and> length executed1 < length ts1 \<and>
           workflowPass env ts1 executed1 res1 w1 = Inl (e, ts', w')"
  using assms
proof (induction env ts executed res w rule: workflowLoop.induct)
  case (1 env ts executed res w)
  show ?case
  proof (cases "length executed < length ts")
    case True
    show ?thesis
    proof (cases "workflowPass env ts executed res w")
      case (Inl a)
      obtain e1 ts1 w1 where a: "a = (e1, ts1, w1)" by (cases a) auto
      with Inl True "1.prems"(2) have "workflowPass env ts executed res w = Inl (e, ts', w')"
        by (simp add: workflowLoop.simps [of env ts executed res w])
      with True "1.prems"(1) show ?thesis by blast
    next
      case (Inr b)
      obtain ts1 ex1 res1 w1 where b: "b = (ts1, ex1, res1, w1)" by (cases b) auto
      with Inr have p: "workflowPass env ts executed res w = Inr (ts1, ex1, res1, w1)" by simp
      with True "1.prems"(2) have loop: "workflowLoop env ts1 ex1 res1 w1 = (Inl e, ts', w')"
        by (simp add: workflowLoop.simps [of env ts executed res w])
      have h: "loopHead env ts0 w0 ts1 ex1 res1 w1"
        using "1.prems"(1) True p by (rule loopHead.turn)
      from "1.IH" [OF True Inr b [symmetric] refl refl h loop] show ?thesis .
    qed
  next
    case False
    with "1.prems"(2) show ?thesis by (simp add: workflowLoop.simps [of env ts executed res w])
  qed
qed

text \<open>A batch leaves the tasks that are not ready as they are.\<close>

lemma runBatch_keeps:
  "list_all2 (\<lambda>t t'. \<not> taskReady executed t \<longrightarrow> t' = t) ts (fst (runBatch env executed ts w))"
proof -
  obtain ts' outs w' where r: "runBatch env executed ts w = (ts', outs, w')"
    by (cases "runBatch env executed ts w") auto
  have "list_all2 (\<lambda>t t'. \<not> taskReady executed t \<longrightarrow> t' = t) ts ts'"
    using runBatch_rel [OF r] by (rule list_all2_mono) (simp add: batchRel_def)
  with r show ?thesis by simp
qed
section \<open>Concrete worlds for the examples\<close>

text \<open>
  A world that counts the calls made to the services and the random numbers drawn. The clock
  advances with the calls. In \<open>quietEnv\<close> every service succeeds; in \<open>flakyEnv n\<close> the
  first \<open>n\<close> calls to a service throw and the later ones succeed; in \<open>brokenStoreEnv\<close>
  the store of the memory service throws, the way \<^verbatim>\<open>MemoryService.store\<close> rethrows; in
  \<open>lateBrokenEnv\<close> it stores the snapshot of a workflow that is still \<^verbatim>\<open>pending\<close>
  and throws on every later one.
\<close>

record world =
  calls :: nat
  draws :: nat

definition world0 :: world where
  "world0 = \<lparr>calls = 0, draws = 0\<rparr>"

definition quietEnv :: "world env" where
  "quietEnv =
     \<lparr>date_now = (\<lambda>w. 1000 + calls w),
      random36 = (\<lambda>w. (''r'' @ dec (draws w), w\<lparr>draws := Suc (draws w)\<rparr>)),
      collab = (\<lambda>c w. (Inr ''ok'', w\<lparr>calls := Suc (calls w)\<rparr>)),
      memory_store = (\<lambda>e w. (None, w))\<rparr>"

definition flakyEnv :: "nat \<Rightarrow> world env" where
  "flakyEnv n =
     quietEnv\<lparr>collab := (\<lambda>c w. (if calls w < n then Inl (Error ''boom'') else Inr ''ok'',
                                  w\<lparr>calls := Suc (calls w)\<rparr>))\<rparr>"

definition storageError :: thrown where
  "storageError = Error ''Memory storage failed: Error: connection lost''"

definition brokenStoreEnv :: "world env" where
  "brokenStoreEnv =
     quietEnv\<lparr>memory_store :=
       (\<lambda>e w. (Some (Error ''Memory storage failed: Error: connection lost''), w))\<rparr>"

definition lateBrokenEnv :: "world env" where
  "lateBrokenEnv =
     quietEnv\<lparr>memory_store :=
       (\<lambda>e w. (if wf_status (se_value e) = Pending then None else Some storageError, w))\<rparr>"

text \<open>
  In \<open>downEnv\<close> every call to a service throws. In \<open>collidingEnv\<close> the random number
  generator gives the same string at its second and at its third draw, so that two tasks made
  in the same millisecond get the same id.
\<close>

definition downEnv :: "world env" where
  "downEnv =
     quietEnv\<lparr>collab := (\<lambda>c w. (Inl (Error ''boom''), w\<lparr>calls := Suc (calls w)\<rparr>))\<rparr>"

definition collidingEnv :: "world env" where
  "collidingEnv =
     quietEnv\<lparr>random36 :=
       (\<lambda>w. (''r'' @ dec (if draws w = 2 then 1 else draws w), w\<lparr>draws := Suc (draws w)\<rparr>))\<rparr>"

text \<open>Four tools for the requests of the examples.\<close>

definition fetchTool :: tool_req where
  "fetchTool = \<lparr>tool_tool = Some ''fetch'', tool_input = None, tool_priority = None\<rparr>"

definition parseTool :: tool_req where
  "parseTool = \<lparr>tool_tool = Some ''parse'', tool_input = None, tool_priority = None\<rparr>"

definition saveTool :: tool_req where
  "saveTool = \<lparr>tool_tool = Some ''save'', tool_input = None, tool_priority = None\<rparr>"

definition notifyTool :: tool_req where
  "notifyTool = \<lparr>tool_tool = Some ''notify'', tool_input = None, tool_priority = None\<rparr>"

text \<open>A request with a prompt and nothing else, and what \<^verbatim>\<open>createWorkflow\<close> makes of it
  in the worlds above: one AI task.\<close>

definition promptRequest :: request where
  "promptRequest =
     \<lparr>req_name = None, req_description = None, req_prompt = Some ''hello'',
      req_messages = None, req_options = None, req_tools = None, req_priority = None,
      req_dependencies = Absent\<rparr>"

definition promptTask :: task where
  "promptTask = newTask ''task_ai_1000_r1'' AI ''medium'' (RequestPayload promptRequest) 1000"

definition promptWorkflow :: workflow where
  "promptWorkflow =
     \<lparr>wf_id = ''workflow_1000_r0'', wf_name = ''Workflow workflow_1000_r0'',
      wf_description = None, wf_tasks = [promptTask], wf_status = Pending,
      wf_createdAt = 1000, wf_startedAt = None, wf_completedAt = None, wf_result = None,
      wf_error = None\<rparr>"

definition newOrch :: orch where
  "newOrch = constructor None None None None"

text \<open>The same task and workflow after a run in which the first call to the AI service
  threw.\<close>

definition failedOnceTask :: task where
  "failedOnceTask =
     promptTask\<lparr>task_status := Pending, task_startedAt := Some 1000,
       task_completedAt := Some 1001, task_error := Some ''boom'', task_retries := 1\<rparr>"

definition failedOnceWorkflow :: workflow where
  "failedOnceWorkflow =
     promptWorkflow\<lparr>wf_tasks := [failedOnceTask], wf_status := Failed,
       wf_startedAt := Some 1000, wf_completedAt := Some 1001,
       wf_error := Some ''Task task_ai_1000_r1 failed: Error: boom''\<rparr>"

text \<open>What an observer sees of the registry: per workflow its status and, per task, the
  status, the retries, the result and the error.\<close>

definition overview ::
  "orch \<Rightarrow> (string \<times> status \<times> (string \<times> status \<times> int \<times> val option \<times> string option) list) list" where
  "overview s =
     map (\<lambda>kw. (fst kw, wf_status (snd kw),
                 map (\<lambda>t. (task_id t, task_status t, task_retries t, task_result t, task_error t))
                   (wf_tasks (snd kw))))
       (workflows s)"

text \<open>What an observer sees of the scheduling: per workflow and task, the status, the start
  time and the dependencies.\<close>

definition timeline ::
  "orch \<Rightarrow> (string \<times> (string \<times> status \<times> nat option \<times> string list option) list) list" where
  "timeline s =
     map (\<lambda>kw. (fst kw,
                 map (\<lambda>t. (task_id t, task_status t, task_startedAt t, task_dependencies t))
                   (wf_tasks (snd kw))))
       (workflows s)"

lemmas eval_defs =
  workflowPass_def readyTasks_def taskReady_def newTask_def
  executeTask_def startTask_def settleTask_def dispatch_def executeAITask_def executeMCPTask_def
  payload_messages_def payload_prompt_def payload_options_def payload_tool_def payload_input_def
  flakyEnv_def quietEnv_def brokenStoreEnv_def world0_def Error_def
  taskFailed_def graphError_def error_toString_def Let_def
  executeWorkflow_def tryWorkflow_def createWorkflow_def
  analyzeAndCreateTasks_def newAITask_def newMCPTask_def truthy_def orElse_def constructor_def
  newOrch_def dec.simps workflowLoop.simps newWorkflow_def snapshot_def truthyDependencies_def
  setupTaskDependencies_def wireDependency_def findById_def TypeError_def cannotRead_def
  pushDependency_def pushDependent_def downEnv_def collidingEnv_def lateBrokenEnv_def
  storageError_def fetchTool_def parseTool_def saveTool_def notifyTool_def

lemma promptRequest_simps:
  "req_prompt promptRequest = Some ''hello''" "req_messages promptRequest = None"
  "req_tools promptRequest = None" "req_dependencies promptRequest = Absent"
  "req_priority promptRequest = None" "req_name promptRequest = None"
  "req_description promptRequest = None" "req_options promptRequest = None"
  by (simp_all add: promptRequest_def)

lemma createWorkflow_prompt:
  "createWorkflow (flakyEnv n) promptRequest newOrch world0 =
     (Inr promptWorkflow, newOrch\<lparr>workflows := [(''workflow_1000_r0'', promptWorkflow)]\<rparr>,
      world0\<lparr>draws := 2\<rparr>)"
  by (simp add: eval_defs promptRequest_simps promptTask_def promptWorkflow_def)

lemma executeWorkflow_prompt_fails:
  "executeWorkflow (flakyEnv (Suc n)) ''workflow_1000_r0''
     (newOrch\<lparr>workflows := [(''workflow_1000_r0'', promptWorkflow)]\<rparr>) (world0\<lparr>draws := 2\<rparr>) =
   (Inl (Error ''Task task_ai_1000_r1 failed: Error: boom''),
    newOrch\<lparr>workflows := [(''workflow_1000_r0'', failedOnceWorkflow)]\<rparr>,
    \<lparr>calls = 1, draws = 2\<rparr>)"
  by (simp add: eval_defs promptWorkflow_def promptTask_def promptRequest_simps
        failedOnceWorkflow_def failedOnceTask_def)

lemma orchestrate_prompt_fails:
  "orchestrate (flakyEnv (Suc n)) promptRequest newOrch world0 =
   (Inl (Error ''Task task_ai_1000_r1 failed: Error: boom''),
    newOrch\<lparr>workflows := [(''workflow_1000_r0'', failedOnceWorkflow)]\<rparr>,
    \<lparr>calls = 1, draws = 2\<rparr>)"
  using executeWorkflow_prompt_fails [of n]
  by (simp add: orchestrate_def createWorkflow_prompt promptWorkflow_def)

lemma overview_failedOnce:
  "overview (newOrch\<lparr>workflows := [(''workflow_1000_r0'', failedOnceWorkflow)]\<rparr>) =
     [(''workflow_1000_r0'', Failed, [(''task_ai_1000_r1'', Pending, 1, None, Some ''boom'')])]"
  by (simp add: overview_def failedOnceWorkflow_def failedOnceTask_def promptTask_def newTask_def)

text \<open>The registry after \<^verbatim>\<open>createWorkflow\<close> on that request.\<close>

definition promptState :: orch where
  "promptState = newOrch\<lparr>workflows := [(''workflow_1000_r0'', promptWorkflow)]\<rparr>"

text \<open>The run of \<^verbatim>\<open>orchestrate\<close> on that request when every service succeeds.\<close>

lemma flakyEnv_0: "flakyEnv 0 = quietEnv"
  by (simp add: flakyEnv_def quietEnv_def)

lemma executeWorkflow_prompt_ok:
  "executeWorkflow quietEnv ''workflow_1000_r0'' promptState (world0\<lparr>draws := 2\<rparr>) =
   (Inr [(''task_ai_1000_r1'', ''ok'')],
    newOrch\<lparr>workflows := [(''workflow_1000_r0'',
       promptWorkflow\<lparr>wf_tasks := [promptTask\<lparr>task_status := Completed,
            task_startedAt := Some 1000, task_completedAt := Some 1001,
            task_result := Some ''ok''\<rparr>],
         wf_status := Completed, wf_startedAt := Some 1000, wf_completedAt := Some 1001,
         wf_result := Some [(''task_ai_1000_r1'', ''ok'')]\<rparr>)]\<rparr>,
    \<lparr>calls = 1, draws = 2\<rparr>)"
  by (simp add: eval_defs promptState_def promptWorkflow_def promptTask_def promptRequest_simps)

lemma orchestrate_prompt_ok:
  "orchestrate quietEnv promptRequest newOrch world0 =
   (Inr [(''task_ai_1000_r1'', ''ok'')],
    newOrch\<lparr>workflows := [(''workflow_1000_r0'',
       promptWorkflow\<lparr>wf_tasks := [promptTask\<lparr>task_status := Completed,
            task_startedAt := Some 1000, task_completedAt := Some 1001,
            task_result := Some ''ok''\<rparr>],
         wf_status := Completed, wf_startedAt := Some 1000, wf_completedAt := Some 1001,
         wf_result := Some [(''task_ai_1000_r1'', ''ok'')]\<rparr>)]\<rparr>,
    \<lparr>calls = 1, draws = 2\<rparr>)"
  using executeWorkflow_prompt_ok createWorkflow_prompt [of 0]
  by (simp add: orchestrate_def flakyEnv_0 promptWorkflow_def promptState_def)

lemma newOrch_simps:
  "tasks newOrch = []" "workflows newOrch = []" "runningTasks newOrch = []"
  "taskQueue newOrch = []" "maxConcurrentTasks newOrch = 10" "taskTimeout newOrch = 300"
  "isAutonomousMode newOrch = False"
  by (simp_all add: newOrch_def constructor_def)

section \<open>Dependency order (claim C1)\<close>

text \<open>
  In a workflow whose tasks have distinct ids, every task whose id is in
  \<^verbatim>\<open>executedTasks\<close> is \<^verbatim>\<open>completed\<close>; so whenever \<^verbatim>\<open>executeWorkflow\<close> hands a
  task to the executor, every task it depends on is \<^verbatim>\<open>completed\<close>.
\<close>

lemma loopHead_invariant:
  assumes "distinct (map task_id ts0)" and "loopHead env ts0 w0 ts executed res w"
  shows "map task_id ts = map task_id ts0 \<and>
         (\<forall>t\<in>set ts. task_id t \<in> set executed \<longrightarrow> task_status t = Completed)"
  using assms(2)
proof (induction rule: loopHead.induct)
  case start
  show ?case by simp
next
  case (turn ts executed res w ts' executed' res' w')
  note p = turn.hyps(3)
  note rel = workflowPass_Inr(1) [OF p]
  from turn.IH have ids: "map task_id ts = map task_id ts0"
    and inv: "\<forall>t\<in>set ts. task_id t \<in> set executed \<longrightarrow> task_status t = Completed" by simp_all
  from ids assms(1) have inj: "inj_on task_id (set ts)" by (metis distinct_map)
  have ids': "map task_id ts' = map task_id ts0" using batchRel_ids [OF rel] ids by simp
  have "task_status t' = Completed" if t': "t' \<in> set ts'" "task_id t' \<in> set executed'" for t'
  proof -
    from t'(1) obtain i where i: "i < length ts'" "ts' ! i = t'" by (auto simp: in_set_conv_nth)
    with rel have r: "batchRel executed (ts ! i) t'" and len: "i < length ts"
      by (auto simp: list_all2_conv_all_nth)
    from len have mem: "ts ! i \<in> set ts" by simp
    show ?thesis
    proof (cases "task_id t' \<in> set executed")
      case True
      with r have "\<not> taskReady executed (ts ! i)" by (simp add: batchRel_def taskReady_def)
      with r have "t' = ts ! i" by (simp add: batchRel_def)
      with inv mem True show ?thesis by simp
    next
      case False
      with t'(2) workflowPass_Inr(2) [OF p] obtain u where
        u: "u \<in> set (readyTasks ts executed)" "task_id u = task_id t'" by auto
      then have "u \<in> set ts" "taskReady executed u" by (simp_all add: readyTasks_def)
      moreover from r have "task_id (ts ! i) = task_id t'" by (simp add: batchRel_def)
      ultimately have "u = ts ! i" "taskReady executed u"
        using u(2) mem inj by (simp_all add: inj_on_def)
      then have "taskReady executed (ts ! i)" by simp
      with r have "taskReady executed t'" by (simp add: batchRel_def taskReady_def)
      with t'(1) have "t' \<in> set (readyTasks ts' executed)" by (simp add: readyTasks_def)
      with workflowPass_Inr(4) [OF p] show ?thesis by simp
    qed
  qed
  with ids' show ?case by simp
qed

lemma dependency_order:
  assumes "distinct (map task_id ts0)" and "loopHead env ts0 w0 ts executed res w"
    and "t \<in> set (readyTasks ts executed)" and "d \<in> depsOf t"
    and "u \<in> set ts" and "task_id u = d"
  shows "task_status u = Completed \<and> \<not> taskReady executed u"
proof -
  from assms(3) have "taskReady executed t" by (simp add: readyTasks_def)
  with assms(4) have "d \<in> set executed"
    by (auto simp: taskReady_def depsOf_def list_all_iff split: option.splits)
  with loopHead_invariant [OF assms(1,2)] assms(5,6) show ?thesis
    by (simp add: taskReady_def)
qed

text \<open>
  Claim C1, as the code has it. Let the tasks \<open>ts0\<close> of a workflow have distinct ids,
  and let the loop of \<^verbatim>\<open>executeWorkflow\<close> stand at the head of a turn. Then every
  task that carries an id on which a ready task depends is \<^verbatim>\<open>completed\<close>, and it is
  not in the ready set itself, so it stays \<^verbatim>\<open>completed\<close> through the batch; and the
  batch leaves every task that is not ready as it is: its status and its \<^verbatim>\<open>startedAt\<close>
  are not touched. The pass of the task queue reads the task map only; in every state that
  a run of the service reaches from its constructor it dispatches nothing and changes
  nothing.
\<close>

theorem dependencies_respected:
  assumes "distinct (map task_id ts0)" and "loopHead env ts0 w0 ts executed res w"
  shows "(\<forall>t\<in>set (readyTasks ts executed). \<forall>u\<in>set ts.
            task_id u \<in> depsOf t \<longrightarrow> task_status u = Completed \<and> \<not> taskReady executed u) \<and>
         list_all2 (\<lambda>t t'. \<not> taskReady executed t \<longrightarrow> t' = t) ts
           (fst (runBatch env executed ts w)) \<and>
         dispatched (fst (run env evs (constructor a b c d, w1))) = [] \<and>
         processTaskQueue env (fst (run env evs (constructor a b c d, w1))) w2 =
           fst (run env evs (constructor a b c d, w1))"
proof -
  have "tasks (fst (constructor a b c d, w1)) = []" by (simp add: constructor_def)
  then have "tasks (fst (run env evs (constructor a b c d, w1))) = []" by (rule run_tasks_empty)
  then have "dispatched (fst (run env evs (constructor a b c d, w1))) = []"
    and "processTaskQueue env (fst (run env evs (constructor a b c d, w1))) w2 =
           fst (run env evs (constructor a b c d, w1))"
    by (simp_all add: empty_task_map)
  moreover have "\<forall>t\<in>set (readyTasks ts executed). \<forall>u\<in>set ts.
      task_id u \<in> depsOf t \<longrightarrow> task_status u = Completed \<and> \<not> taskReady executed u"
    using dependency_order [OF assms] by blast
  ultimately show ?thesis using runBatch_keeps [of executed ts env w] by simp
qed

text \<open>
  A request for two tools, the second of which is to wait for the first, and the two tasks
  that \<^verbatim>\<open>createWorkflow\<close> makes of it.
\<close>

definition chainRequest :: request where
  "chainRequest =
     \<lparr>req_name = None, req_description = None, req_prompt = None, req_messages = None,
      req_options = None, req_tools = Some [Tool fetchTool, Tool parseTool],
      req_priority = None,
      req_dependencies =
        Iterable [Edge (Some ''task_mcp_1000_r2'') (Some ''task_mcp_1000_r1'')]\<rparr>"

definition fetchTask :: task where
  "fetchTask =
     (newTask ''task_mcp_1000_r1'' MCP ''medium'' (ToolPayload fetchTool) 1000)
       \<lparr>task_dependents := Some [''task_mcp_1000_r2'']\<rparr>"

definition parseTask :: task where
  "parseTask =
     (newTask ''task_mcp_1000_r2'' MCP ''medium'' (ToolPayload parseTool) 1000)
       \<lparr>task_dependencies := Some [''task_mcp_1000_r1'']\<rparr>"

definition fetchDone :: task where
  "fetchDone =
     fetchTask\<lparr>task_status := Completed, task_startedAt := Some 1000,
       task_completedAt := Some 1001, task_result := Some ''ok''\<rparr>"

lemma chainRequest_tasks:
  "analyzeAndCreateTasks quietEnv chainRequest (world0\<lparr>draws := 1\<rparr>) =
     (Inr [fetchTask, parseTask], world0\<lparr>draws := 3\<rparr>)"
  by (simp add: eval_defs chainRequest_def fetchTask_def parseTask_def)

lemma chain_first_turn:
  "workflowPass quietEnv [fetchTask, parseTask] [] [] (world0\<lparr>draws := 3\<rparr>) =
     Inr ([fetchDone, parseTask], [''task_mcp_1000_r1''], [(''task_mcp_1000_r1'', ''ok'')],
          \<lparr>calls = 1, draws = 3\<rparr>)"
  by (simp add: eval_defs fetchTask_def parseTask_def fetchDone_def)

lemma chain_loopHead:
  "loopHead quietEnv [fetchTask, parseTask] (world0\<lparr>draws := 3\<rparr>)
     [fetchDone, parseTask] [''task_mcp_1000_r1''] [(''task_mcp_1000_r1'', ''ok'')]
     \<lparr>calls = 1, draws = 3\<rparr>"
  by (rule loopHead.turn [OF loopHead.start _ chain_first_turn]) simp

theorem dependencies_respected_witness:
  "fst (analyzeAndCreateTasks quietEnv chainRequest (world0\<lparr>draws := 1\<rparr>)) =
     Inr [fetchTask, parseTask] \<and>
   distinct (map task_id [fetchTask, parseTask]) \<and>
   loopHead quietEnv [fetchTask, parseTask] (world0\<lparr>draws := 3\<rparr>)
     [fetchDone, parseTask] [''task_mcp_1000_r1''] [(''task_mcp_1000_r1'', ''ok'')]
     \<lparr>calls = 1, draws = 3\<rparr> \<and>
   readyTasks [fetchDone, parseTask] [''task_mcp_1000_r1''] = [parseTask] \<and>
   depsOf parseTask = {task_id fetchDone} \<and>
   task_status fetchDone = Completed \<and>
   \<not> taskReady [''task_mcp_1000_r1''] fetchDone \<and>
   dispatched (fst (run quietEnv [Orchestrate chainRequest, StartAutonomousMode]
      (constructor None None None None, world0))) = []"
proof -
  have d: "distinct (map task_id [fetchTask, parseTask])"
    by (simp add: fetchTask_def parseTask_def newTask_def)
  have r: "readyTasks [fetchDone, parseTask] [''task_mcp_1000_r1''] = [parseTask]"
    by (simp add: readyTasks_def taskReady_def fetchDone_def fetchTask_def parseTask_def
          newTask_def)
  have dp: "depsOf parseTask = {task_id fetchDone}"
    by (simp add: depsOf_def fetchDone_def fetchTask_def parseTask_def newTask_def)
  from dependencies_respected [OF d chain_loopHead,
      of "[Orchestrate chainRequest, StartAutonomousMode]" None None None None world0 world0]
  have "task_status fetchDone = Completed \<and> \<not> taskReady [''task_mcp_1000_r1''] fetchDone"
    and "dispatched (fst (run quietEnv [Orchestrate chainRequest, StartAutonomousMode]
      (constructor None None None None, world0))) = []"
    by (simp_all add: r dp)
  with d r dp chain_loopHead chainRequest_tasks show ?thesis by simp
qed

text \<open>
  Claim C1 as stated speaks of every workflow. Ids are made of the clock and of a random
  string, and nothing keeps two tasks from getting the same one. Here the first two of four
  tools get the id \<^verbatim>\<open>task_mcp_1000_r1\<close>; the request makes the first of them wait for
  the third tool, and the fourth tool wait for that id. \<^verbatim>\<open>executeWorkflow\<close> runs the
  second and the third task, takes the shared id for executed, and runs the fourth task
  while the first one, which carries an id the fourth depends on, has never been started.
\<close>

definition sharedIdRequest :: request where
  "sharedIdRequest =
     \<lparr>req_name = None, req_description = None, req_prompt = None, req_messages = None,
      req_options = None,
      req_tools = Some [Tool fetchTool, Tool parseTool, Tool saveTool, Tool notifyTool],
      req_priority = None,
      req_dependencies =
        Iterable [Edge (Some ''task_mcp_1000_r1'') (Some ''task_mcp_1000_r3''),
                  Edge (Some ''task_mcp_1000_r4'') (Some ''task_mcp_1000_r1'')]\<rparr>"

definition sharedIdWorkflow :: workflow where
  "sharedIdWorkflow =
     \<lparr>wf_id = ''workflow_1000_r0'', wf_name = ''Workflow workflow_1000_r0'',
      wf_description = None,
      wf_tasks =
        [(newTask ''task_mcp_1000_r1'' MCP ''medium'' (ToolPayload fetchTool) 1000)
           \<lparr>task_dependencies := Some [''task_mcp_1000_r3''],
            task_dependents := Some [''task_mcp_1000_r4'']\<rparr>,
         newTask ''task_mcp_1000_r1'' MCP ''medium'' (ToolPayload parseTool) 1000,
         (newTask ''task_mcp_1000_r3'' MCP ''medium'' (ToolPayload saveTool) 1000)
           \<lparr>task_dependents := Some [''task_mcp_1000_r1'']\<rparr>,
         (newTask ''task_mcp_1000_r4'' MCP ''medium'' (ToolPayload notifyTool) 1000)
           \<lparr>task_dependencies := Some [''task_mcp_1000_r1'']\<rparr>],
      wf_status = Pending, wf_createdAt = 1000, wf_startedAt = None, wf_completedAt = None,
      wf_result = None, wf_error = None\<rparr>"

lemma createWorkflow_sharedId:
  "createWorkflow collidingEnv sharedIdRequest newOrch world0 =
     (Inr sharedIdWorkflow, newOrch\<lparr>workflows := [(''workflow_1000_r0'', sharedIdWorkflow)]\<rparr>,
      world0\<lparr>draws := 5\<rparr>)"
  by (simp add: eval_defs sharedIdRequest_def sharedIdWorkflow_def)

lemma executeWorkflow_sharedId:
  "timeline (fst (snd (executeWorkflow collidingEnv ''workflow_1000_r0''
      (newOrch\<lparr>workflows := [(''workflow_1000_r0'', sharedIdWorkflow)]\<rparr>)
      (world0\<lparr>draws := 5\<rparr>)))) =
   [(''workflow_1000_r0'',
     [(''task_mcp_1000_r1'', Pending, None, Some [''task_mcp_1000_r3'']),
      (''task_mcp_1000_r1'', Completed, Some 1000, None),
      (''task_mcp_1000_r3'', Completed, Some 1001, None),
      (''task_mcp_1000_r4'', Completed, Some 1002, Some [''task_mcp_1000_r1''])])]"
  by (simp add: eval_defs timeline_def sharedIdWorkflow_def)

theorem shared_id_counterexample:
  "timeline (fst (snd (orchestrate collidingEnv sharedIdRequest newOrch world0))) =
   [(''workflow_1000_r0'',
     [(''task_mcp_1000_r1'', Pending, None, Some [''task_mcp_1000_r3'']),
      (''task_mcp_1000_r1'', Completed, Some 1000, None),
      (''task_mcp_1000_r3'', Completed, Some 1001, None),
      (''task_mcp_1000_r4'', Completed, Some 1002, Some [''task_mcp_1000_r1''])])]"
  using executeWorkflow_sharedId
  by (simp add: orchestrate_def createWorkflow_sharedId sharedIdWorkflow_def)

section \<open>Cycles and dangling dependencies (claim C2)\<close>

text \<open>
  A set \<open>B\<close> of ids is blocked in a task list when every task that carries an id of
  \<open>B\<close> depends on an id that is in \<open>B\<close> or that no task of the list carries. In a
  workflow whose tasks have distinct ids, the ids on a dependency cycle form a blocked set,
  and so does the id of a task with a dangling dependency.
\<close>

definition blocked :: "task list \<Rightarrow> string set \<Rightarrow> bool" where
  "blocked ts B \<longleftrightarrow>
     (\<forall>t\<in>set ts. task_id t \<in> B \<longrightarrow> (\<exists>d\<in>depsOf t. d \<in> B \<or> d \<notin> task_id ` set ts))"

text \<open>
  A cycle, as the list of its ids: the task with the \<open>i\<close>-th id depends on the next id,
  the last one on the first.
\<close>

definition onCycle :: "task list \<Rightarrow> string list \<Rightarrow> bool" where
  "onCycle ts c \<longleftrightarrow>
     c \<noteq> [] \<and>
     (\<forall>i<length c. \<exists>t\<in>set ts. task_id t = c ! i \<and> c ! (Suc i mod length c) \<in> depsOf t)"

text \<open>A task with a dangling dependency: it depends on an id that no task carries.\<close>

definition dangling :: "task list \<Rightarrow> task \<Rightarrow> bool" where
  "dangling ts t \<longleftrightarrow> t \<in> set ts \<and> (\<exists>d\<in>depsOf t. d \<notin> task_id ` set ts)"

text \<open>No call to a service throws, and no task has a type the dispatch rejects.\<close>

definition neverThrows :: "'w env \<Rightarrow> task list \<Rightarrow> bool" where
  "neverThrows env ts \<longleftrightarrow>
     (\<forall>c w. \<exists>v. fst (collab env c w) = Inr v) \<and>
     (\<forall>t\<in>set ts. task_type t \<in> {AI, MCP, WorkflowType, Monitoring})"

lemma cycle_blocked:
  assumes "distinct (map task_id ts)" and "onCycle ts c"
  shows "blocked ts (set c) \<and> set c \<inter> task_id ` set ts \<noteq> {}"
proof
  have inj: "inj_on task_id (set ts)" using assms(1) by (simp add: distinct_map)
  show "blocked ts (set c)"
    unfolding blocked_def
  proof (intro ballI impI)
    fix t assume t: "t \<in> set ts" "task_id t \<in> set c"
    then obtain i where i: "i < length c" "c ! i = task_id t" by (auto simp: in_set_conv_nth)
    with assms(2) obtain t' where t': "t' \<in> set ts" "task_id t' = c ! i"
      "c ! (Suc i mod length c) \<in> depsOf t'" by (auto simp: onCycle_def)
    with i t inj have "t' = t" by (auto dest: inj_onD)
    moreover from i(1) have "0 < length c" by arith
    then have "Suc i mod length c < length c" by (rule mod_less_divisor)
    then have "c ! (Suc i mod length c) \<in> set c" by (rule nth_mem)
    ultimately show "\<exists>d\<in>depsOf t. d \<in> set c \<or> d \<notin> task_id ` set ts" using t' by blast
  qed
  from assms(2) have "0 < length c" by (simp add: onCycle_def)
  with assms(2) obtain t where "t \<in> set ts" "task_id t = c ! 0" by (auto simp: onCycle_def)
  moreover from \<open>0 < length c\<close> have "c ! 0 \<in> set c" by simp
  ultimately show "set c \<inter> task_id ` set ts \<noteq> {}" by force
qed

lemma dangling_blocked:
  assumes "distinct (map task_id ts)" and "dangling ts t"
  shows "blocked ts {task_id t} \<and> {task_id t} \<inter> task_id ` set ts \<noteq> {}"
proof -
  from assms(2) obtain d where t: "t \<in> set ts" and d: "d \<in> depsOf t" "d \<notin> task_id ` set ts"
    by (auto simp: dangling_def)
  have inj: "inj_on task_id (set ts)" using assms(1) by (simp add: distinct_map)
  have "blocked ts {task_id t}"
    unfolding blocked_def
  proof (intro ballI impI)
    fix u assume "u \<in> set ts" "task_id u \<in> {task_id t}"
    with inj t have "u = t" by (auto dest: inj_onD)
    with d show "\<exists>d\<in>depsOf u. d \<in> {task_id t} \<or> d \<notin> task_id ` set ts" by blast
  qed
  with t show ?thesis by auto
qed

lemma ready_not_blocked:
  assumes "blocked ts B" and "t \<in> set ts" and "taskReady executed t"
    and "set executed \<inter> B = {}" and "set executed \<subseteq> task_id ` set ts"
  shows "task_id t \<notin> B"
proof
  assume "task_id t \<in> B"
  with assms(1,2) obtain d where d: "d \<in> depsOf t" "d \<in> B \<or> d \<notin> task_id ` set ts"
    by (auto simp: blocked_def)
  from assms(3) d(1) have "d \<in> set executed"
    by (auto simp: taskReady_def depsOf_def list_all_iff split: option.splits)
  with assms(4,5) d(2) show False by auto
qed

lemma blocked_batch:
  assumes "blocked ts B" and "list_all2 (batchRel executed) ts ts'"
  shows "blocked ts' B"
proof -
  have ids: "map task_id ts' = map task_id ts" by (rule batchRel_ids [OF assms(2)])
  then have sets: "task_id ` set ts' = task_id ` set ts" by (metis set_map)
  show ?thesis
    unfolding blocked_def
  proof (intro ballI impI)
    fix t' assume t': "t' \<in> set ts'" "task_id t' \<in> B"
    then obtain i where i: "i < length ts'" "ts' ! i = t'" by (auto simp: in_set_conv_nth)
    with assms(2) have rel: "batchRel executed (ts ! i) t'" and len: "i < length ts"
      by (auto simp: list_all2_conv_all_nth)
    then have "ts ! i \<in> set ts" "task_id (ts ! i) \<in> B" "depsOf (ts ! i) = depsOf t'"
      using t' by (auto simp: batchRel_def depsOf_def)
    then have "\<exists>d\<in>depsOf t'. d \<in> B \<or> d \<notin> task_id ` set ts"
      using assms(1) unfolding blocked_def by metis
    with sets show "\<exists>d\<in>depsOf t'. d \<in> B \<or> d \<notin> task_id ` set ts'" by simp
  qed
qed

text \<open>
  What the loop may do to a task while \<open>B\<close> is blocked: nothing, when the id of the task
  is in \<open>B\<close>.
\<close>

definition keepsBlocked :: "string set \<Rightarrow> task \<Rightarrow> task \<Rightarrow> bool" where
  "keepsBlocked B t t' \<longleftrightarrow>
     task_id t' = task_id t \<and> task_type t' = task_type t \<and> (task_id t \<in> B \<longrightarrow> t' = t)"

lemma batch_keepsBlocked:
  assumes "blocked ts B" and "set executed \<inter> B = {}" and "set executed \<subseteq> task_id ` set ts"
    and "list_all2 (batchRel executed) ts ts'"
  shows "list_all2 (keepsBlocked B) ts ts'"
proof -
  have "\<And>t t'. t \<in> set ts \<Longrightarrow> batchRel executed t t' \<Longrightarrow> keepsBlocked B t t'"
    using ready_not_blocked [OF assms(1) _ _ assms(2,3)]
    by (auto simp: batchRel_def keepsBlocked_def)
  with assms(4) show ?thesis
    by (auto simp: list_all2_conv_all_nth)
qed

lemma keepsBlocked_trans:
  "list_all2 (keepsBlocked B) ts ts' \<Longrightarrow> list_all2 (keepsBlocked B) ts' ts'' \<Longrightarrow>
   list_all2 (keepsBlocked B) ts ts''"
  by (auto simp: list_all2_conv_all_nth keepsBlocked_def)

lemma keepsBlocked_refl: "list_all2 (keepsBlocked B) ts ts"
  by (simp add: list_all2_refl keepsBlocked_def)

lemma blocked_not_done:
  assumes "distinct executed" and "set executed \<subseteq> task_id ` set ts"
    and "set executed \<inter> B = {}" and "B \<inter> task_id ` set ts \<noteq> {}"
  shows "length executed < length ts"
proof -
  from assms(4) obtain b where b: "b \<in> B" "b \<in> task_id ` set ts" by auto
  with assms(2,3) have "set executed \<subset> task_id ` set ts" by auto
  then have "card (set executed) < card (task_id ` set ts)"
    by (simp add: psubset_card_mono)
  also have "\<dots> \<le> card (set ts)" by (simp add: card_image_le)
  also have "\<dots> \<le> length ts" by (rule card_length)
  finally show ?thesis using assms(1) by (simp add: distinct_card)
qed

lemma dispatch_neverThrows:
  assumes "\<forall>c w. \<exists>v. fst (collab env c w) = Inr v"
    and "task_type t \<in> {AI, MCP, WorkflowType, Monitoring}"
  shows "\<exists>v. fst (dispatch env t w) = Inr v"
  using assms by (auto simp: dispatch_def)

lemma executeTask_neverThrows:
  assumes "\<forall>c w. \<exists>v. fst (collab env c w) = Inr v"
    and "task_type t \<in> {AI, MCP, WorkflowType, Monitoring}"
    and "executeTask env t w = (t', out, w')"
  shows "\<exists>v. out = Inr v"
proof -
  have ty: "task_type (startTask (date_now env w) t) \<in> {AI, MCP, WorkflowType, Monitoring}"
    using assms(2) by (simp add: startTask_def)
  from assms(3) have "out = fst (dispatch env (startTask (date_now env w) t) w)"
    by (auto simp: executeTask_def Let_def split: prod.splits)
  with dispatch_neverThrows [OF assms(1) ty] show ?thesis by simp
qed

lemma runBatch_neverThrows:
  assumes "neverThrows env ts" and "runBatch env executed ts w = (ts', outs, w')"
  shows "\<forall>p\<in>set outs. \<exists>v. snd p = Inr v"
  using assms
proof (induction ts arbitrary: w ts' outs w')
  case Nil
  then show ?case by simp
next
  case (Cons t ts)
  from Cons.prems(1) have nt: "neverThrows env ts"
    and c: "\<forall>c w. \<exists>v. fst (collab env c w) = Inr v"
    and ty: "task_type t \<in> {AI, MCP, WorkflowType, Monitoring}"
    by (simp_all add: neverThrows_def)
  show ?case
  proof (cases "taskReady executed t")
    case True
    obtain t1 out w1 where e: "executeTask env t w = (t1, out, w1)"
      by (cases "executeTask env t w") auto
    obtain ts2 outs2 w2 where r: "runBatch env executed ts w1 = (ts2, outs2, w2)"
      by (cases "runBatch env executed ts w1") auto
    from Cons.prems(2) True e r have "outs = (t1, out) # outs2" by simp
    with Cons.IH [OF nt r] executeTask_neverThrows [OF c ty e] show ?thesis by auto
  next
    case False
    obtain ts2 outs2 w2 where r: "runBatch env executed ts w = (ts2, outs2, w2)"
      by (cases "runBatch env executed ts w") auto
    from Cons.prems(2) False r have "outs = outs2" by simp
    with Cons.IH [OF nt r] show ?thesis by simp
  qed
qed

lemma neverThrows_batch:
  assumes "neverThrows env ts" and "list_all2 (batchRel executed) ts ts'"
  shows "neverThrows env ts'"
proof -
  have "\<forall>t'\<in>set ts'. task_type t' \<in> {AI, MCP, WorkflowType, Monitoring}"
  proof
    fix t' assume "t' \<in> set ts'"
    then obtain i where i: "i < length ts'" "ts' ! i = t'" by (auto simp: in_set_conv_nth)
    with assms(2) have "task_type t' = task_type (ts ! i)" "ts ! i \<in> set ts"
      by (auto simp: list_all2_conv_all_nth batchRel_def)
    with assms(1) show "task_type t' \<in> {AI, MCP, WorkflowType, Monitoring}"
      by (simp add: neverThrows_def)
  qed
  with assms(1) show ?thesis by (simp add: neverThrows_def)
qed

lemma workflowPass_neverThrows:
  assumes "neverThrows env ts" and "workflowPass env ts executed res w = Inl (e, ts', w')"
  shows "e = graphError"
proof (cases "readyTasks ts executed = []")
  case True
  with assms(2) show ?thesis by (simp add: workflowPass_def)
next
  case False
  from workflowPass_Inl(3) [OF assms(2) False] obtain t reason where
    "(t, Inl reason) \<in> set (fst (snd (runBatch env executed ts w)))" by blast
  moreover have "\<forall>p\<in>set (fst (snd (runBatch env executed ts w))). \<exists>v. snd p = Inr v"
    using runBatch_neverThrows [OF assms(1)] by (cases "runBatch env executed ts w") auto
  ultimately show ?thesis by force
qed

lemma blocked_loop:
  assumes "blocked ts B" and "B \<inter> task_id ` set ts \<noteq> {}"
    and "set executed \<inter> B = {}" and "set executed \<subseteq> task_id ` set ts"
    and "distinct executed"
    and "workflowLoop env ts executed res w = (r, ts', w')"
  shows "(\<exists>e. r = Inl e \<and> (e = graphError \<or> (\<exists>t reason. e = taskFailed t reason)) \<and>
            (neverThrows env ts \<longrightarrow> e = graphError)) \<and>
         list_all2 (keepsBlocked B) ts ts'"
  using assms
proof (induction env ts executed res w rule: workflowLoop.induct)
  case (1 env ts executed res w)
  have len: "length executed < length ts"
    using "1.prems"(5,4,3,2) by (rule blocked_not_done)
  show ?case
  proof (cases "workflowPass env ts executed res w")
    case (Inl a)
    obtain e ts1 w1 where a: "a = (e, ts1, w1)" by (cases a) auto
    with Inl len "1.prems"(6) have r: "r = Inl e" "ts' = ts1"
      by (simp_all add: workflowLoop.simps [of env ts executed res w])
    from Inl a have p: "workflowPass env ts executed res w = Inl (e, ts1, w1)" by simp
    have "list_all2 (keepsBlocked B) ts ts1"
      using "1.prems"(1,3,4) workflowPass_Inl(1) [OF p] by (rule batch_keepsBlocked)
    with r workflowPass_Inl(2) [OF p] workflowPass_neverThrows [OF _ p] show ?thesis by auto
  next
    case (Inr b)
    obtain ts1 ex1 res1 w1 where b: "b = (ts1, ex1, res1, w1)" by (cases b) auto
    with Inr have p: "workflowPass env ts executed res w = Inr (ts1, ex1, res1, w1)" by simp
    with len "1.prems"(6) have loop: "workflowLoop env ts1 ex1 res1 w1 = (r, ts', w')"
      by (simp add: workflowLoop.simps [of env ts executed res w])
    note rel = workflowPass_Inr(1) [OF p]
    have ids: "task_id ` set ts1 = task_id ` set ts"
      using batchRel_ids [OF rel] by (metis set_map)
    have b1: "blocked ts1 B" using "1.prems"(1) rel by (rule blocked_batch)
    have b2: "B \<inter> task_id ` set ts1 \<noteq> {}" using "1.prems"(2) ids by simp
    have ready: "task_id ` set (readyTasks ts executed) \<inter> B = {}"
    proof -
      have "task_id t \<notin> B" if "t \<in> set (readyTasks ts executed)" for t
      proof -
        from that have "t \<in> set ts" "taskReady executed t" by (simp_all add: readyTasks_def)
        with "1.prems"(1) show ?thesis using "1.prems"(3,4) by (rule ready_not_blocked)
      qed
      then show ?thesis by auto
    qed
    have b3: "set ex1 \<inter> B = {}"
      using workflowPass_Inr(2) [OF p] "1.prems"(3) ready by auto
    have b4: "set ex1 \<subseteq> task_id ` set ts1"
      using workflowPass_Inr(2) [OF p] "1.prems"(4) ids by (auto simp: readyTasks_def)
    have b5: "distinct ex1" using "1.prems"(5) by (rule workflowPass_Inr(3) [OF p])
    from "1.IH" [OF len Inr b [symmetric] refl refl b1 b2 b3 b4 b5 loop]
    have ih: "(\<exists>e. r = Inl e \<and> (e = graphError \<or> (\<exists>t reason. e = taskFailed t reason)) \<and>
                (neverThrows env ts1 \<longrightarrow> e = graphError)) \<and>
              list_all2 (keepsBlocked B) ts1 ts'" .
    have k: "list_all2 (keepsBlocked B) ts ts1"
      using "1.prems"(1,3,4) rel by (rule batch_keepsBlocked)
    from ih k keepsBlocked_trans [of B ts ts1 ts'] neverThrows_batch [OF _ rel]
    show ?thesis by blast
  qed
qed

lemma blocked_never_ready:
  assumes "blocked ts0 B" and "loopHead env ts0 w0 ts executed res w"
  shows "blocked ts B \<and> set executed \<inter> B = {} \<and> set executed \<subseteq> task_id ` set ts \<and>
         (\<forall>t\<in>set (readyTasks ts executed). task_id t \<notin> B)"
  using assms(2)
proof (induction rule: loopHead.induct)
  case start
  have "task_id t \<notin> B" if "t \<in> set (readyTasks ts0 [])" for t
  proof -
    from that have "t \<in> set ts0" "taskReady [] t" by (simp_all add: readyTasks_def)
    with assms(1) show ?thesis by (rule ready_not_blocked) simp_all
  qed
  with assms(1) show ?case by simp
next
  case (turn ts executed res w ts' executed' res' w')
  note p = turn.hyps(3)
  note rel = workflowPass_Inr(1) [OF p]
  have ids: "task_id ` set ts' = task_id ` set ts"
    using batchRel_ids [OF rel] by (metis set_map)
  from turn.IH have b1: "blocked ts' B" using rel by (auto intro: blocked_batch)
  from turn.IH workflowPass_Inr(2) [OF p] have b3: "set executed' \<inter> B = {}" by auto
  from turn.IH workflowPass_Inr(2) [OF p] ids have b4: "set executed' \<subseteq> task_id ` set ts'"
    by (auto simp: readyTasks_def)
  have "task_id t \<notin> B" if "t \<in> set (readyTasks ts' executed')" for t
  proof -
    from that have "t \<in> set ts'" "taskReady executed' t" by (simp_all add: readyTasks_def)
    with b1 show ?thesis using b3 b4 by (rule ready_not_blocked)
  qed
  with b1 b3 b4 show ?case by simp
qed

text \<open>
  As long as no call throws, every batch of the loop succeeds; and when every batch
  succeeds, the only error the loop can throw is the one of an empty ready set.
\<close>

lemma loopHead_neverThrows:
  assumes "neverThrows env ts0" and "loopHead env ts0 w0 ts executed res w"
  shows "neverThrows env ts"
  using assms(2)
proof (induction rule: loopHead.induct)
  case start
  show ?case by (rule assms(1))
next
  case (turn ts executed res w ts' executed' res' w')
  from turn.IH workflowPass_Inr(1) [OF turn.hyps(3)] show ?case by (rule neverThrows_batch)
qed

lemma neverThrows_batches:
  assumes "neverThrows env ts0" and "loopHead env ts0 w0 ts executed res w"
  shows "\<forall>p\<in>set (fst (snd (runBatch env executed ts w))). \<exists>v. snd p = Inr v"
  using runBatch_neverThrows [OF loopHead_neverThrows [OF assms]]
  by (cases "runBatch env executed ts w") auto

lemma loop_graphError:
  assumes "workflowLoop env ts0 [] [] w0 = (Inl e, ts', w')"
    and "\<forall>ts executed res w. loopHead env ts0 w0 ts executed res w \<longrightarrow>
           length executed < length ts \<longrightarrow>
           (\<forall>p\<in>set (fst (snd (runBatch env executed ts w))). \<exists>v. snd p = Inr v)"
  shows "e = graphError"
proof -
  from workflowLoop_fails_at [OF loopHead.start assms(1)] obtain ts1 ex1 res1 w1 where
    h: "loopHead env ts0 w0 ts1 ex1 res1 w1" and len: "length ex1 < length ts1"
    and p: "workflowPass env ts1 ex1 res1 w1 = Inl (e, ts', w')" by blast
  show ?thesis
  proof (cases "readyTasks ts1 ex1 = []")
    case True
    with p show ?thesis by (simp add: workflowPass_def)
  next
    case False
    from workflowPass_Inl(3) [OF p False] obtain t reason where
      "(t, Inl reason) \<in> set (fst (snd (runBatch env ex1 ts1 w1)))" by blast
    moreover from assms(2) h len
    have "\<forall>p\<in>set (fst (snd (runBatch env ex1 ts1 w1))). \<exists>v. snd p = Inr v" by blast
    ultimately show ?thesis by force
  qed
qed

lemma taskFailed_message: "err_message (taskFailed t reason) \<noteq> err_message graphError"
  by (simp add: taskFailed_def graphError_def Error_def)

text \<open>
  Claim C2, as the code has it. Let the tasks of a registered workflow have distinct ids,
  and let \<open>B\<close> be the ids of a dependency cycle among them, or the id of a task with a
  dangling dependency. Then \<^verbatim>\<open>executeWorkflow\<close> returns, and what it returns is an
  error; the workflow is left \<^verbatim>\<open>failed\<close>; no task with an id in \<open>B\<close> is ever in the
  ready set of a turn of the loop, so none is handed to the executor, and its record is
  what it was. When the store of the final snapshot throws, the error raised is the one of
  the store. When it does not, and every task that was run succeeded, the error is the one
  of the empty ready set: a plain \<^verbatim>\<open>Error\<close> with the message
  \<^verbatim>\<open>Circular dependency detected or no tasks ready to execute\<close>, which is the message of
  no task failure.
\<close>

theorem blocked_workflow_fails:
  assumes "map_of (workflows s) workflowId = Some wfl"
    and "distinct (map task_id (wf_tasks wfl))"
    and "onCycle (wf_tasks wfl) c \<and> B = set c \<or> dangling (wf_tasks wfl) t \<and> B = {task_id t}"
    and "executeWorkflow env workflowId s w = (r, s', w')"
  shows "\<exists>e r0 wfl' w1.
           r = Inl e \<and> tryWorkflow env wfl w = (r0, wfl', w1) \<and>
           map_of (workflows s') workflowId = Some wfl' \<and> wf_status wfl' = Failed \<and>
           (\<forall>ts executed res wh. loopHead env (wf_tasks wfl) w ts executed res wh \<longrightarrow>
              (\<forall>t\<in>set (readyTasks ts executed). task_id t \<notin> B)) \<and>
           list_all2 (keepsBlocked B) (wf_tasks wfl) (wf_tasks wfl') \<and>
           (case fst (memory_store env (snapshot workflowId wfl') w1) of
              Some e' \<Rightarrow> e = e'
            | None \<Rightarrow>
                (\<forall>ts executed res wh. loopHead env (wf_tasks wfl) w ts executed res wh \<longrightarrow>
                   length executed < length ts \<longrightarrow>
                   (\<forall>p\<in>set (fst (snd (runBatch env executed ts wh))). \<exists>v. snd p = Inr v)) \<longrightarrow>
                e = graphError) \<and>
           err_name graphError = ''Error'' \<and>
           (\<forall>t reason. err_message (taskFailed t reason) \<noteq> err_message graphError)"
proof -
  have bl: "blocked (wf_tasks wfl) B \<and> B \<inter> task_id ` set (wf_tasks wfl) \<noteq> {}"
    using assms(3) cycle_blocked [OF assms(2), of c] dangling_blocked [OF assms(2), of t]
    by auto
  obtain r0 ts' w1 where loop: "workflowLoop env (wf_tasks wfl) [] [] w = (r0, ts', w1)"
    by (cases "workflowLoop env (wf_tasks wfl) [] [] w") auto
  from bl have b1: "blocked (wf_tasks wfl) B" and b2: "B \<inter> task_id ` set (wf_tasks wfl) \<noteq> {}"
    by simp_all
  from blocked_loop [OF b1 b2 _ _ _ loop] obtain e0 where
    e0: "r0 = Inl e0" and keeps: "list_all2 (keepsBlocked B) (wf_tasks wfl) ts'"
    by auto
  let ?wfl' = "wfl\<lparr>wf_status := Running, wf_startedAt := Some (date_now env w)\<rparr>
                 \<lparr>wf_tasks := ts', wf_status := Failed,
                  wf_completedAt := Some (date_now env w1), wf_error := Some (err_message e0)\<rparr>"
  have tw: "tryWorkflow env wfl w = (Inl e0, ?wfl', w1)"
    using loop e0 by (simp add: tryWorkflow_def)
  let ?stored = "fst (memory_store env (snapshot workflowId ?wfl') w1)"
  from executeWorkflow_result [OF assms(1) tw] assms(4)
  have r: "r = (case ?stored of Some e \<Rightarrow> Inl e | None \<Rightarrow> Inl e0)"
    and s': "s' = s\<lparr>workflows := AList.update workflowId ?wfl' (workflows s)\<rparr>" by simp_all
  define e where "e = (case ?stored of Some e' \<Rightarrow> e' | None \<Rightarrow> e0)"
  have c1: "r = Inl e" by (simp add: r e_def split: option.splits)
  have c2: "map_of (workflows s') workflowId = Some ?wfl'" by (simp add: s' update_conv')
  have c3: "wf_status ?wfl' = Failed" by simp
  have c4: "\<forall>ts executed res wh. loopHead env (wf_tasks wfl) w ts executed res wh \<longrightarrow>
      (\<forall>t\<in>set (readyTasks ts executed). task_id t \<notin> B)"
  proof (intro allI impI)
    fix ts executed res wh
    assume "loopHead env (wf_tasks wfl) w ts executed res wh"
    from blocked_never_ready [OF b1 this]
    show "\<forall>t\<in>set (readyTasks ts executed). task_id t \<notin> B" by simp
  qed
  have c5: "list_all2 (keepsBlocked B) (wf_tasks wfl) (wf_tasks ?wfl')" using keeps by simp
  have g: "(\<forall>ts executed res wh. loopHead env (wf_tasks wfl) w ts executed res wh \<longrightarrow>
              length executed < length ts \<longrightarrow>
              (\<forall>p\<in>set (fst (snd (runBatch env executed ts wh))). \<exists>v. snd p = Inr v)) \<longrightarrow>
           e0 = graphError"
    using loop_graphError [of env "wf_tasks wfl" w e0 ts' w1] loop e0 by blast
  have c6: "(case ?stored of
              Some e' \<Rightarrow> e = e'
            | None \<Rightarrow>
                (\<forall>ts executed res wh. loopHead env (wf_tasks wfl) w ts executed res wh \<longrightarrow>
                   length executed < length ts \<longrightarrow>
                   (\<forall>p\<in>set (fst (snd (runBatch env executed ts wh))). \<exists>v. snd p = Inr v)) \<longrightarrow>
                e = graphError)"
  proof (cases ?stored)
    case None
    then have "e = e0" by (simp add: e_def)
    with g None show ?thesis by simp
  next
    case (Some e')
    then show ?thesis by (simp add: e_def)
  qed
  have c7: "err_name graphError = ''Error''" by (simp add: graphError_def Error_def)
  from c1 tw c2 c3 c4 c5 c6 c7 taskFailed_message show ?thesis by blast
qed

text \<open>
  A request for three tools, the second and the third of which are to wait for each other,
  and the workflow that \<^verbatim>\<open>createWorkflow\<close> makes of it.
\<close>

definition cycleRequest :: request where
  "cycleRequest =
     \<lparr>req_name = None, req_description = None, req_prompt = None, req_messages = None,
      req_options = None,
      req_tools = Some [Tool fetchTool, Tool parseTool, Tool saveTool],
      req_priority = None,
      req_dependencies =
        Iterable [Edge (Some ''task_mcp_1000_r2'') (Some ''task_mcp_1000_r3''),
                  Edge (Some ''task_mcp_1000_r3'') (Some ''task_mcp_1000_r2'')]\<rparr>"

definition freeTask :: task where
  "freeTask = newTask ''task_mcp_1000_r1'' MCP ''medium'' (ToolPayload fetchTool) 1000"

definition cycleTaskA :: task where
  "cycleTaskA =
     (newTask ''task_mcp_1000_r2'' MCP ''medium'' (ToolPayload parseTool) 1000)
       \<lparr>task_dependencies := Some [''task_mcp_1000_r3''],
        task_dependents := Some [''task_mcp_1000_r3'']\<rparr>"

definition cycleTaskB :: task where
  "cycleTaskB =
     (newTask ''task_mcp_1000_r3'' MCP ''medium'' (ToolPayload saveTool) 1000)
       \<lparr>task_dependencies := Some [''task_mcp_1000_r2''],
        task_dependents := Some [''task_mcp_1000_r2'']\<rparr>"

definition cycleWorkflow :: workflow where
  "cycleWorkflow =
     \<lparr>wf_id = ''workflow_1000_r0'', wf_name = ''Workflow workflow_1000_r0'',
      wf_description = None, wf_tasks = [freeTask, cycleTaskA, cycleTaskB],
      wf_status = Pending, wf_createdAt = 1000, wf_startedAt = None, wf_completedAt = None,
      wf_result = None, wf_error = None\<rparr>"

definition cycleState :: orch where
  "cycleState = newOrch\<lparr>workflows := [(''workflow_1000_r0'', cycleWorkflow)]\<rparr>"

lemmas cycle_defs =
  cycleRequest_def cycleWorkflow_def cycleState_def freeTask_def cycleTaskA_def cycleTaskB_def

lemma createWorkflow_cycle:
  "createWorkflow quietEnv cycleRequest newOrch world0 =
     (Inr cycleWorkflow, cycleState, world0\<lparr>draws := 4\<rparr>)"
  "createWorkflow downEnv cycleRequest newOrch world0 =
     (Inr cycleWorkflow, cycleState, world0\<lparr>draws := 4\<rparr>)"
  "createWorkflow lateBrokenEnv cycleRequest newOrch world0 =
     (Inr cycleWorkflow, cycleState, world0\<lparr>draws := 4\<rparr>)"
  by (simp_all add: eval_defs cycle_defs)

lemma cycle_distinct: "distinct (map task_id (wf_tasks cycleWorkflow))"
  by (simp add: cycle_defs newTask_def)

lemma cycle_is_onCycle:
  "onCycle (wf_tasks cycleWorkflow) [''task_mcp_1000_r2'', ''task_mcp_1000_r3'']"
  by (simp add: onCycle_def depsOf_def cycle_defs newTask_def less_Suc_eq numeral_2_eq_2)

lemma cycle_neverThrows: "neverThrows quietEnv (wf_tasks cycleWorkflow)"
  by (simp add: neverThrows_def quietEnv_def cycle_defs newTask_def)

lemma executeWorkflow_cycle_quiet:
  "executeWorkflow quietEnv ''workflow_1000_r0'' cycleState (world0\<lparr>draws := 4\<rparr>) =
     (Inl graphError,
      newOrch\<lparr>workflows := [(''workflow_1000_r0'',
        cycleWorkflow\<lparr>wf_tasks :=
            [freeTask\<lparr>task_status := Completed, task_startedAt := Some 1000,
               task_completedAt := Some 1001, task_result := Some ''ok''\<rparr>,
             cycleTaskA, cycleTaskB],
          wf_status := Failed, wf_startedAt := Some 1000, wf_completedAt := Some 1001,
          wf_error := Some ''Circular dependency detected or no tasks ready to execute''\<rparr>)]\<rparr>,
      \<lparr>calls = 1, draws = 4\<rparr>)"
  by (simp add: eval_defs cycle_defs)

theorem blocked_workflow_fails_witness:
  "fst (createWorkflow quietEnv cycleRequest newOrch world0) = Inr cycleWorkflow \<and>
   map_of (workflows cycleState) ''workflow_1000_r0'' = Some cycleWorkflow \<and>
   distinct (map task_id (wf_tasks cycleWorkflow)) \<and>
   onCycle (wf_tasks cycleWorkflow) [''task_mcp_1000_r2'', ''task_mcp_1000_r3''] \<and>
   neverThrows quietEnv (wf_tasks cycleWorkflow) \<and>
   fst (executeWorkflow quietEnv ''workflow_1000_r0'' cycleState (world0\<lparr>draws := 4\<rparr>)) =
     Inl graphError \<and>
   overview (fst (snd (executeWorkflow quietEnv ''workflow_1000_r0'' cycleState
      (world0\<lparr>draws := 4\<rparr>)))) =
     [(''workflow_1000_r0'', Failed,
       [(''task_mcp_1000_r1'', Completed, 0, Some ''ok'', None),
        (''task_mcp_1000_r2'', Pending, 0, None, None),
        (''task_mcp_1000_r3'', Pending, 0, None, None)])]"
proof -
  let ?w = "world0\<lparr>draws := 4\<rparr>"
  let ?run = "executeWorkflow quietEnv ''workflow_1000_r0'' cycleState ?w"
  have h1: "map_of (workflows cycleState) ''workflow_1000_r0'' = Some cycleWorkflow"
    by (simp add: cycleState_def)
  have h3: "onCycle (wf_tasks cycleWorkflow) [''task_mcp_1000_r2'', ''task_mcp_1000_r3''] \<and>
      {''task_mcp_1000_r2'', ''task_mcp_1000_r3''} = set [''task_mcp_1000_r2'', ''task_mcp_1000_r3''] \<or>
      dangling (wf_tasks cycleWorkflow) freeTask \<and>
      {''task_mcp_1000_r2'', ''task_mcp_1000_r3''} = {task_id freeTask}"
    using cycle_is_onCycle by simp
  have h4: "?run = (fst ?run, fst (snd ?run), snd (snd ?run))" by simp
  have ok: "\<forall>ts executed res wh. loopHead quietEnv (wf_tasks cycleWorkflow) ?w ts executed res wh \<longrightarrow>
      length executed < length ts \<longrightarrow>
      (\<forall>p\<in>set (fst (snd (runBatch quietEnv executed ts wh))). \<exists>v. snd p = Inr v)"
    using neverThrows_batches [OF cycle_neverThrows] by blast
  have st: "fst (memory_store quietEnv entry wh) = None" for entry wh
    by (simp add: quietEnv_def)
  from blocked_workflow_fails [OF h1 cycle_distinct h3 h4] obtain e wfl' w1 where
    re: "fst ?run = Inl e" and
    cs: "(case fst (memory_store quietEnv (snapshot ''workflow_1000_r0'' wfl') w1) of
            Some e' \<Rightarrow> e = e'
          | None \<Rightarrow>
              (\<forall>ts executed res wh.
                  loopHead quietEnv (wf_tasks cycleWorkflow) ?w ts executed res wh \<longrightarrow>
                  length executed < length ts \<longrightarrow>
                  (\<forall>p\<in>set (fst (snd (runBatch quietEnv executed ts wh))). \<exists>v. snd p = Inr v)) \<longrightarrow>
              e = graphError)"
    by blast
  from cs ok have "e = graphError" by (simp add: st)
  with re have g: "fst ?run = Inl graphError" by simp
  have ov: "overview (fst (snd ?run)) =
     [(''workflow_1000_r0'', Failed,
       [(''task_mcp_1000_r1'', Completed, 0, Some ''ok'', None),
        (''task_mcp_1000_r2'', Pending, 0, None, None),
        (''task_mcp_1000_r3'', Pending, 0, None, None)])]"
    unfolding executeWorkflow_cycle_quiet
    by (simp add: overview_def cycle_defs newTask_def)
  from h1 cycle_distinct cycle_is_onCycle cycle_neverThrows g ov createWorkflow_cycle(1)
  show ?thesis by simp
qed

text \<open>
  The same workflow when every call to a tool throws. Each run fails at the first task;
  \<open>cycleFailed k\<close> is the workflow after the \<open>k\<close>-th run. In the first three runs
  the task goes back to \<^verbatim>\<open>pending\<close> with one more retry counted; the fourth finds the
  retries used up and leaves it \<^verbatim>\<open>failed\<close>.
\<close>

definition cycleFailed :: "nat \<Rightarrow> workflow" where
  "cycleFailed k =
     cycleWorkflow\<lparr>wf_tasks :=
         [freeTask\<lparr>task_status := (if k < 4 then Pending else Failed),
            task_startedAt := Some (999 + k), task_completedAt := Some (1000 + k),
            task_error := Some ''boom'', task_retries := int (min k 3)\<rparr>,
          cycleTaskA, cycleTaskB],
       wf_status := Failed, wf_startedAt := Some (999 + k), wf_completedAt := Some (1000 + k),
       wf_error := Some ''Task task_mcp_1000_r1 failed: Error: boom''\<rparr>"

lemma executeWorkflow_cycle_down:
  "executeWorkflow downEnv ''workflow_1000_r0'' cycleState (world0\<lparr>draws := 4\<rparr>) =
     (Inl (Error ''Task task_mcp_1000_r1 failed: Error: boom''),
      newOrch\<lparr>workflows := [(''workflow_1000_r0'', cycleFailed (Suc 0))]\<rparr>,
      \<lparr>calls = Suc 0, draws = 4\<rparr>)"
  "executeWorkflow downEnv ''workflow_1000_r0''
     (newOrch\<lparr>workflows := [(''workflow_1000_r0'', cycleFailed (Suc 0))]\<rparr>)
     \<lparr>calls = Suc 0, draws = 4\<rparr> =
     (Inl (Error ''Task task_mcp_1000_r1 failed: Error: boom''),
      newOrch\<lparr>workflows := [(''workflow_1000_r0'', cycleFailed 2)]\<rparr>, \<lparr>calls = 2, draws = 4\<rparr>)"
  "executeWorkflow downEnv ''workflow_1000_r0''
     (newOrch\<lparr>workflows := [(''workflow_1000_r0'', cycleFailed 2)]\<rparr>) \<lparr>calls = 2, draws = 4\<rparr> =
     (Inl (Error ''Task task_mcp_1000_r1 failed: Error: boom''),
      newOrch\<lparr>workflows := [(''workflow_1000_r0'', cycleFailed 3)]\<rparr>, \<lparr>calls = 3, draws = 4\<rparr>)"
  "executeWorkflow downEnv ''workflow_1000_r0''
     (newOrch\<lparr>workflows := [(''workflow_1000_r0'', cycleFailed 3)]\<rparr>) \<lparr>calls = 3, draws = 4\<rparr> =
     (Inl (Error ''Task task_mcp_1000_r1 failed: Error: boom''),
      newOrch\<lparr>workflows := [(''workflow_1000_r0'', cycleFailed 4)]\<rparr>, \<lparr>calls = 4, draws = 4\<rparr>)"
  by (simp_all add: eval_defs cycle_defs cycleFailed_def)

definition threeFailures :: "orch \<times> world" where
  "threeFailures =
     run downEnv [Orchestrate cycleRequest, ExecuteWorkflow ''workflow_1000_r0'',
        ExecuteWorkflow ''workflow_1000_r0''] (newOrch, world0)"

lemma threeFailures_state:
  "threeFailures =
     (newOrch\<lparr>workflows := [(''workflow_1000_r0'', cycleFailed 3)]\<rparr>, \<lparr>calls = 3, draws = 4\<rparr>)"
proof -
  have "wf_id cycleWorkflow = ''workflow_1000_r0''" by (simp add: cycleWorkflow_def)
  then show ?thesis
    by (simp add: threeFailures_def run_def step_def orchestrate_def createWorkflow_cycle(2)
          executeWorkflow_cycle_down(1,2,3))
qed

text \<open>
  The same request when the random number generator repeats itself: the first two tasks
  share the id \<^verbatim>\<open>task_mcp_1000_r1\<close>, and the first of them and the third wait for each
  other.
\<close>

definition sharedCycleRequest :: request where
  "sharedCycleRequest =
     cycleRequest\<lparr>req_dependencies :=
        Iterable [Edge (Some ''task_mcp_1000_r1'') (Some ''task_mcp_1000_r3''),
                  Edge (Some ''task_mcp_1000_r3'') (Some ''task_mcp_1000_r1'')]\<rparr>"

definition sharedCycleWorkflow :: workflow where
  "sharedCycleWorkflow =
     cycleWorkflow\<lparr>wf_tasks :=
        [(newTask ''task_mcp_1000_r1'' MCP ''medium'' (ToolPayload fetchTool) 1000)
           \<lparr>task_dependencies := Some [''task_mcp_1000_r3''],
            task_dependents := Some [''task_mcp_1000_r3'']\<rparr>,
         newTask ''task_mcp_1000_r1'' MCP ''medium'' (ToolPayload parseTool) 1000,
         (newTask ''task_mcp_1000_r3'' MCP ''medium'' (ToolPayload saveTool) 1000)
           \<lparr>task_dependencies := Some [''task_mcp_1000_r1''],
            task_dependents := Some [''task_mcp_1000_r1'']\<rparr>]\<rparr>"

lemma createWorkflow_sharedCycle:
  "createWorkflow collidingEnv sharedCycleRequest newOrch world0 =
     (Inr sharedCycleWorkflow,
      newOrch\<lparr>workflows := [(''workflow_1000_r0'', sharedCycleWorkflow)]\<rparr>,
      world0\<lparr>draws := 4\<rparr>)"
  by (simp add: eval_defs cycle_defs sharedCycleRequest_def sharedCycleWorkflow_def)

lemma executeWorkflow_sharedCycle:
  "timeline (fst (snd (executeWorkflow collidingEnv ''workflow_1000_r0''
      (newOrch\<lparr>workflows := [(''workflow_1000_r0'', sharedCycleWorkflow)]\<rparr>)
      (world0\<lparr>draws := 4\<rparr>)))) =
   [(''workflow_1000_r0'',
     [(''task_mcp_1000_r1'', Pending, None, Some [''task_mcp_1000_r3'']),
      (''task_mcp_1000_r1'', Completed, Some 1000, None),
      (''task_mcp_1000_r3'', Completed, Some 1001, Some [''task_mcp_1000_r1''])])]"
  by (simp add: eval_defs timeline_def cycle_defs sharedCycleWorkflow_def)

lemma orchestrate_sharedCycle:
  "timeline (fst (snd (orchestrate collidingEnv sharedCycleRequest newOrch world0))) =
   [(''workflow_1000_r0'',
     [(''task_mcp_1000_r1'', Pending, None, Some [''task_mcp_1000_r3'']),
      (''task_mcp_1000_r1'', Completed, Some 1000, None),
      (''task_mcp_1000_r3'', Completed, Some 1001, Some [''task_mcp_1000_r1''])])]"
  using executeWorkflow_sharedCycle
  by (simp add: orchestrate_def createWorkflow_sharedCycle sharedCycleWorkflow_def
        cycleWorkflow_def)

lemma sharedCycle_is_onCycle:
  "onCycle (wf_tasks sharedCycleWorkflow) [''task_mcp_1000_r1'', ''task_mcp_1000_r3'']"
  by (simp add: onCycle_def depsOf_def sharedCycleWorkflow_def newTask_def less_Suc_eq
        numeral_2_eq_2)

lemma orchestrate_cycle_lateBroken:
  "fst (orchestrate lateBrokenEnv cycleRequest newOrch world0) = Inl storageError"
proof -
  have "fst (executeWorkflow lateBrokenEnv ''workflow_1000_r0'' cycleState (world0\<lparr>draws := 4\<rparr>)) =
      Inl storageError"
    by (simp add: eval_defs cycle_defs)
  then show ?thesis
    by (simp add: orchestrate_def createWorkflow_cycle(3) cycleWorkflow_def)
qed

lemma orchestrate_cycle_quiet:
  "fst (orchestrate quietEnv cycleRequest newOrch world0) = Inl graphError"
  using executeWorkflow_cycle_quiet
  by (simp add: orchestrate_def createWorkflow_cycle(1) cycleWorkflow_def)

text \<open>
  Claim C2 as stated: every workflow with a cycle ends with a \<^verbatim>\<open>GraphError\<close>, and no
  task of the cycle is ever run. Four runs of the code say otherwise. When the tool of the
  task outside the cycle has failed through all its retries, \<^verbatim>\<open>executeWorkflow\<close> raises
  the failure of that task. When the store throws on the final snapshot, it raises the error
  of the store. When two tasks share an id, a task of the cycle is run to completion. And
  when all goes well, the error raised is a plain \<^verbatim>\<open>Error\<close>.
\<close>

theorem graph_error_counterexample:
  "onCycle (wf_tasks cycleWorkflow) [''task_mcp_1000_r2'', ''task_mcp_1000_r3''] \<and>
   overview (fst threeFailures) =
     [(''workflow_1000_r0'', Failed,
       [(''task_mcp_1000_r1'', Pending, 3, None, Some ''boom''),
        (''task_mcp_1000_r2'', Pending, 0, None, None),
        (''task_mcp_1000_r3'', Pending, 0, None, None)])] \<and>
   fst (executeWorkflow downEnv ''workflow_1000_r0'' (fst threeFailures) (snd threeFailures)) =
     Inl (Error ''Task task_mcp_1000_r1 failed: Error: boom'') \<and>
   overview (fst (snd (executeWorkflow downEnv ''workflow_1000_r0'' (fst threeFailures)
      (snd threeFailures)))) =
     [(''workflow_1000_r0'', Failed,
       [(''task_mcp_1000_r1'', Failed, 3, None, Some ''boom''),
        (''task_mcp_1000_r2'', Pending, 0, None, None),
        (''task_mcp_1000_r3'', Pending, 0, None, None)])] \<and>
   fst (orchestrate lateBrokenEnv cycleRequest newOrch world0) = Inl storageError \<and>
   onCycle (wf_tasks sharedCycleWorkflow) [''task_mcp_1000_r1'', ''task_mcp_1000_r3''] \<and>
   fst (createWorkflow collidingEnv sharedCycleRequest newOrch world0) = Inr sharedCycleWorkflow \<and>
   timeline (fst (snd (orchestrate collidingEnv sharedCycleRequest newOrch world0))) =
     [(''workflow_1000_r0'',
       [(''task_mcp_1000_r1'', Pending, None, Some [''task_mcp_1000_r3'']),
        (''task_mcp_1000_r1'', Completed, Some 1000, None),
        (''task_mcp_1000_r3'', Completed, Some 1001, Some [''task_mcp_1000_r1''])])] \<and>
   fst (orchestrate quietEnv cycleRequest newOrch world0) = Inl graphError \<and>
   err_name graphError = ''Error''"
proof -
  have a: "overview (fst threeFailures) =
     [(''workflow_1000_r0'', Failed,
       [(''task_mcp_1000_r1'', Pending, 3, None, Some ''boom''),
        (''task_mcp_1000_r2'', Pending, 0, None, None),
        (''task_mcp_1000_r3'', Pending, 0, None, None)])]"
    unfolding threeFailures_state
    by (simp add: overview_def cycleFailed_def cycle_defs newTask_def)
  have b: "fst (executeWorkflow downEnv ''workflow_1000_r0'' (fst threeFailures)
      (snd threeFailures)) = Inl (Error ''Task task_mcp_1000_r1 failed: Error: boom'')"
    unfolding threeFailures_state fst_conv snd_conv executeWorkflow_cycle_down(4) by simp
  have c: "overview (fst (snd (executeWorkflow downEnv ''workflow_1000_r0'' (fst threeFailures)
      (snd threeFailures)))) =
     [(''workflow_1000_r0'', Failed,
       [(''task_mcp_1000_r1'', Failed, 3, None, Some ''boom''),
        (''task_mcp_1000_r2'', Pending, 0, None, None),
        (''task_mcp_1000_r3'', Pending, 0, None, None)])]"
    unfolding threeFailures_state fst_conv snd_conv executeWorkflow_cycle_down(4)
    by (simp add: overview_def cycleFailed_def cycle_defs newTask_def)
  have d: "err_name graphError = ''Error''" by (simp add: graphError_def Error_def)
  from a b c d cycle_is_onCycle orchestrate_cycle_lateBroken sharedCycle_is_onCycle
    createWorkflow_sharedCycle orchestrate_sharedCycle orchestrate_cycle_quiet
  show ?thesis by simp
qed

section \<open>A failed task is not run again (claim C3)\<close>

text \<open>
  The workflow of the claim: one task with \<^verbatim>\<open>maxRetries = 2\<close>, in a world whose AI
  service throws on its first two calls and answers the third.
\<close>

definition retryTask :: task where
  "retryTask = (newTask ''task_ai_1000_r1'' AI ''medium'' (RequestPayload promptRequest) 1000)\<lparr>task_maxRetries := 2\<rparr>"

definition retryState :: orch where
  "retryState =
     newOrch\<lparr>workflows := [(''workflow_1000_r0'', promptWorkflow\<lparr>wf_tasks := [retryTask]\<rparr>)]\<rparr>"

lemma executeWorkflow_retryState:
  "(case executeWorkflow (flakyEnv 2) ''workflow_1000_r0'' retryState (world0\<lparr>draws := 2\<rparr>) of
      (r, s, w) \<Rightarrow>
        r = Inl (Error ''Task task_ai_1000_r1 failed: Error: boom'') \<and>
        overview s = [(''workflow_1000_r0'', Failed,
                       [(''task_ai_1000_r1'', Pending, 1, None, Some ''boom'')])] \<and>
        calls w = 1)"
  by (simp add: eval_defs overview_def retryState_def promptWorkflow_def retryTask_def
        promptRequest_simps)

text \<open>
  Claim C3 on the code. The claim expects the task to be run three times and to end
  \<^verbatim>\<open>completed\<close> with \<^verbatim>\<open>retries == 2\<close> in a completed workflow. The code runs it once:
  \<^verbatim>\<open>executeTask\<close> counts the retry, puts the task back to \<^verbatim>\<open>pending\<close> and rethrows;
  \<^verbatim>\<open>executeWorkflow\<close> takes the rejection as final, so the workflow is \<^verbatim>\<open>failed\<close>,
  the task stays \<^verbatim>\<open>pending\<close> with one retry counted, and the service was called once.
  The same happens to the workflow that \<^verbatim>\<open>orchestrate\<close> builds from a request with a
  prompt (its task has \<^verbatim>\<open>maxRetries = 3\<close>).
\<close>

theorem retry_not_rerun:
  "(case executeWorkflow (flakyEnv 2) ''workflow_1000_r0'' retryState (world0\<lparr>draws := 2\<rparr>) of
      (r, s, w) \<Rightarrow>
        r = Inl (Error ''Task task_ai_1000_r1 failed: Error: boom'') \<and>
        overview s = [(''workflow_1000_r0'', Failed,
                       [(''task_ai_1000_r1'', Pending, 1, None, Some ''boom'')])] \<and>
        calls w = 1) \<and>
   (case orchestrate (flakyEnv 2) promptRequest newOrch world0 of
      (r, s, w) \<Rightarrow>
        r = Inl (Error ''Task task_ai_1000_r1 failed: Error: boom'') \<and>
        overview s = [(''workflow_1000_r0'', Failed,
                       [(''task_ai_1000_r1'', Pending, 1, None, Some ''boom'')])] \<and>
        calls w = 1)"
proof -
  have "orchestrate (flakyEnv 2) promptRequest newOrch world0 =
     (Inl (Error ''Task task_ai_1000_r1 failed: Error: boom''),
      newOrch\<lparr>workflows := [(''workflow_1000_r0'', failedOnceWorkflow)]\<rparr>,
      \<lparr>calls = 1, draws = 2\<rparr>)"
    using orchestrate_prompt_fails [of 1] by (simp add: numeral_2_eq_2)
  with executeWorkflow_retryState overview_failedOnce show ?thesis by simp
qed

section \<open>The retry bound (claim C4)\<close>

lemma taskEvent_maxRetries: "task_maxRetries (applyTaskEvent ev t) = task_maxRetries t"
  by (cases ev)
     (auto simp: startTask_def settleTask_def healFailed_def healStuck_def cancelStuck_def Let_def
           split: sum.splits)

lemma taskEvent_retries_bound:
  "task_retries t \<le> task_maxRetries t \<Longrightarrow>
   task_retries (applyTaskEvent ev t) \<le> task_maxRetries (applyTaskEvent ev t)"
  by (cases ev)
     (auto simp: startTask_def settleTask_def healFailed_def healStuck_def cancelStuck_def Let_def
           split: sum.splits)

lemma taskEvent_retries_mono: "task_retries t \<le> task_retries (applyTaskEvent ev t)"
  by (cases ev)
     (auto simp: startTask_def settleTask_def healFailed_def healStuck_def cancelStuck_def Let_def
           split: sum.splits)

lemma taskEvent_exhausted:
  "task_maxRetries t \<le> task_retries t \<Longrightarrow> task_status t \<noteq> Pending \<Longrightarrow>
   task_status (applyTaskEvent ev t) \<noteq> Pending"
  by (cases ev)
     (auto simp: startTask_def settleTask_def healFailed_def healStuck_def cancelStuck_def Let_def
           split: sum.splits)

lemma taskEvents_maxRetries: "task_maxRetries (taskEvents evs t) = task_maxRetries t"
  unfolding taskEvents_def by (induction evs arbitrary: t) (simp_all add: taskEvent_maxRetries)

lemma taskEvents_retries_bound:
  "task_retries t \<le> task_maxRetries t \<Longrightarrow>
   task_retries (taskEvents evs t) \<le> task_maxRetries (taskEvents evs t)"
  unfolding taskEvents_def by (induction evs arbitrary: t) (simp_all add: taskEvent_retries_bound)

lemma taskEvents_exhausted:
  "task_maxRetries t \<le> task_retries t \<Longrightarrow> task_status t \<noteq> Pending \<Longrightarrow>
   task_status (taskEvents evs t) \<noteq> Pending"
  unfolding taskEvents_def
proof (induction evs arbitrary: t)
  case Nil
  then show ?case by simp
next
  case (Cons ev evs)
  have "task_maxRetries (applyTaskEvent ev t) \<le> task_retries (applyTaskEvent ev t)"
    using Cons.prems(1) taskEvent_retries_mono [of t ev] by (simp add: taskEvent_maxRetries)
  moreover have "task_status (applyTaskEvent ev t) \<noteq> Pending"
    using Cons.prems by (rule taskEvent_exhausted)
  ultimately show ?case using Cons.IH by simp
qed

text \<open>
  Every change the orchestrator makes to a task is a sequence of these events: a run of
  \<^verbatim>\<open>executeTask\<close>, the start and the settlement of a task dispatched by the task
  queue, and a tick of the self-healing timer.
\<close>

lemma executeTask_as_events:
  "executeTask env t w = (t', out, w') \<Longrightarrow>
   t' = taskEvents [Started (date_now env w), Settled (date_now env w') out] t"
  by (auto simp: executeTask_def taskEvents_def Let_def split: prod.splits)

lemma beginTask_as_events:
  "beginTask now t = taskEvents [Started now] t \<or>
   (\<exists>e. beginTask now t = taskEvents [Started now, Settled now (Inl e)] t)"
  by (cases "task_type t") (auto simp: beginTask_def taskEvents_def)

lemma endTask_as_events:
  "endTask now out t = taskEvents [] t \<or> endTask now out t = taskEvents [Settled now out] t"
  by (cases "task_type t") (simp_all add: endTask_def taskEvents_def)

lemma selfHealing_as_events:
  "healStuck now dflt (healFailed t) = taskEvents [Requeued, Swept now dflt] t"
  by (simp add: taskEvents_def)

text \<open>
  Claim C4. For a task whose \<^verbatim>\<open>retries\<close> do not exceed its \<^verbatim>\<open>maxRetries\<close> (a new task
  has 0 and 3), after every sequence of executor runs and self-healing sweeps the counter
  still does not exceed \<^verbatim>\<open>maxRetries\<close>, which never changes; and from a state with
  \<^verbatim>\<open>retries == maxRetries\<close> and status \<^verbatim>\<open>failed\<close>, no sequence of them leaves the
  task \<^verbatim>\<open>pending\<close>.
\<close>

theorem retry_bound:
  assumes "task_retries t \<le> task_maxRetries t"
  shows "task_retries (taskEvents evs t) \<le> task_maxRetries (taskEvents evs t) \<and>
         task_maxRetries (taskEvents evs t) = task_maxRetries t \<and>
         (task_retries t = task_maxRetries t \<and> task_status t = Failed \<longrightarrow>
            task_status (taskEvents evs t) \<noteq> Pending)"
  using assms taskEvents_retries_bound [of t evs] taskEvents_maxRetries [of evs t]
    taskEvents_exhausted [of t evs]
  by auto

text \<open>A task that has used its three retries and failed.\<close>

definition exhaustedTask :: task where
  "exhaustedTask =
     (newTask ''task_ai_1_a'' AI ''medium'' OtherPayload 0)
       \<lparr>task_status := Failed, task_retries := 3, task_error := Some ''boom''\<rparr>"

theorem retry_bound_witness:
  "task_retries exhaustedTask \<le> task_maxRetries exhaustedTask \<and>
   task_retries exhaustedTask = task_maxRetries exhaustedTask \<and>
   task_status exhaustedTask = Failed \<and>
   task_retries (taskEvents [Requeued, Started 5, Settled 6 (Inl (Error ''boom'')), Requeued]
      exhaustedTask) = 3 \<and>
   task_status (taskEvents [Requeued, Started 5, Settled 6 (Inl (Error ''boom'')), Requeued]
      exhaustedTask) = Failed"
  using retry_bound [of exhaustedTask
      "[Requeued, Started 5, Settled 6 (Inl (Error ''boom'')), Requeued]"]
  by (simp add: exhaustedTask_def newTask_def taskEvents_def healFailed_def startTask_def
        settleTask_def Error_def)

section \<open>Priority order (claim C5)\<close>

text \<open>The weight of an entry of the task map.\<close>

definition weightOf :: "string \<times> task \<Rightarrow> int" where
  "weightOf kt = getPriorityWeight (task_priority (snd kt))"

lemma pendingTasks_sorted:
  "sorted_wrt (\<lambda>a b. weightOf b \<le> weightOf a) (pendingTasks s)"
proof -
  have "sorted (map (\<lambda>kt. - weightOf kt) (pendingTasks s))"
    unfolding pendingTasks_def weightOf_def by (rule sorted_sort_key)
  then show ?thesis by (simp add: sorted_map)
qed

lemma pendingTasks_stable:
  "filter (\<lambda>kt. weightOf kt = k) (pendingTasks s) =
   filter (\<lambda>kt. weightOf kt = k) (filter (\<lambda>kt. task_status (snd kt) = Pending) (tasks s))"
proof -
  have "filter (\<lambda>kt. - weightOf kt = - k) (pendingTasks s) =
        filter (\<lambda>kt. - weightOf kt = - k) (filter (\<lambda>kt. task_status (snd kt) = Pending) (tasks s))"
    unfolding pendingTasks_def weightOf_def by (rule sort_key_stable)
  then show ?thesis by simp
qed

lemma dispatched_prefix: "\<exists>n. dispatched s = take n (pendingTasks s)"
  by (cases "isAutonomousMode s") (auto simp: dispatched_def intro: exI [of _ 0])

lemma runBatch_order:
  "map (\<lambda>p. task_id (fst p)) (fst (snd (runBatch env executed ts w))) =
   map task_id (readyTasks ts executed)"
  by (cases "runBatch env executed ts w") (auto dest: runBatch_outs_ids)

text \<open>
  Claim C5, as the code has it. In a pass of the task queue the pending tasks are in
  descending order of priority weight (a priority that is none of the four names weighs 2),
  tasks of equal weight keep the order of the task map, and the tasks dispatched are a
  prefix of that list. \<^verbatim>\<open>executeWorkflow\<close> does not sort: its ready set is a subsequence
  of \<^verbatim>\<open>workflow.tasks\<close>, and the executor receives it in that order.
\<close>

theorem priority_order:
  "sorted_wrt (\<lambda>a b. weightOf b \<le> weightOf a) (pendingTasks s) \<and>
   filter (\<lambda>kt. weightOf kt = k) (pendingTasks s) =
     filter (\<lambda>kt. weightOf kt = k) (filter (\<lambda>kt. task_status (snd kt) = Pending) (tasks s)) \<and>
   (\<exists>n. dispatched s = take n (pendingTasks s)) \<and>
   subseq (readyTasks ts executed) ts \<and>
   map (\<lambda>p. task_id (fst p)) (fst (snd (runBatch env executed ts w))) =
     map task_id (readyTasks ts executed)"
  using pendingTasks_sorted [of s] pendingTasks_stable [of k s] dispatched_prefix [of s]
    runBatch_order [of env executed ts w]
  by (simp add: readyTasks_def)

text \<open>Four tasks of different priorities, and a task map that holds them.\<close>

definition lowTask :: task where
  "lowTask = newTask ''task_mcp_1000_r1'' MCP ''low'' OtherPayload 1000"

definition criticalTask :: task where
  "criticalTask = newTask ''task_mcp_1000_r2'' MCP ''critical'' OtherPayload 1000"

definition mediumTask :: task where
  "mediumTask = newTask ''task_mcp_1000_r3'' MCP ''medium'' OtherPayload 1000"

definition unrankedTask :: task where
  "unrankedTask = newTask ''task_mcp_1000_r4'' MCP ''urgent'' OtherPayload 1000"

definition queueState :: orch where
  "queueState =
     newOrch\<lparr>isAutonomousMode := True, maxConcurrentTasks := 3,
       tasks := [(''a'', lowTask), (''b'', mediumTask), (''c'', criticalTask), (''d'', unrankedTask)]\<rparr>"

lemma pendingTasks_queueState:
  "map fst (pendingTasks queueState) = [''c'', ''b'', ''d'', ''a'']"
  by (simp add: pendingTasks_def queueState_def newOrch_def constructor_def lowTask_def
        mediumTask_def criticalTask_def unrankedTask_def newTask_def getPriorityWeight_def)

theorem priority_order_witness:
  "sorted_wrt (\<lambda>a b. weightOf b \<le> weightOf a) (pendingTasks queueState) \<and>
   map fst (pendingTasks queueState) = [''c'', ''b'', ''d'', ''a''] \<and>
   map fst (filter (\<lambda>kt. weightOf kt = 2) (pendingTasks queueState)) = [''b'', ''d''] \<and>
   subseq (readyTasks [lowTask, criticalTask] []) [lowTask, criticalTask]"
  using priority_order [of queueState 2 "[lowTask, criticalTask]" "[]" quietEnv world0]
    pendingTasks_queueState
  by (simp add: queueState_def newOrch_def constructor_def lowTask_def
        mediumTask_def criticalTask_def unrankedTask_def newTask_def getPriorityWeight_def weightOf_def)

text \<open>
  Claim C5 as stated: a \<^verbatim>\<open>critical\<close> task created after a \<^verbatim>\<open>low\<close> task, both ready,
  is dispatched first. In \<^verbatim>\<open>executeWorkflow\<close> the \<^verbatim>\<open>low\<close> task comes first, in the
  ready set and in the calls of the executor.
\<close>

theorem ready_set_order_counterexample:
  "map task_priority (readyTasks [lowTask, criticalTask] []) = [''low'', ''critical''] \<and>
   map (\<lambda>p. task_priority (fst p))
     (fst (snd (runBatch quietEnv [] [lowTask, criticalTask] world0))) = [''low'', ''critical'']"
  by (simp add: eval_defs lowTask_def criticalTask_def)

section \<open>Failures of the persistence service (claim C6)\<close>

text \<open>
  Nothing but the two calls of \<^verbatim>\<open>memoryService.store\<close> depends on the store: the task
  graph that is built, the run of the workflow and the registry they leave are the same
  whatever the store does.
\<close>

lemma dispatch_store: "dispatch (env\<lparr>memory_store := m\<rparr>) t w = dispatch env t w"
  by (simp add: dispatch_def split: task_type.splits)

lemma executeTask_store: "executeTask (env\<lparr>memory_store := m\<rparr>) t w = executeTask env t w"
  by (simp add: executeTask_def dispatch_store)

lemma runBatch_store: "runBatch (env\<lparr>memory_store := m\<rparr>) executed ts w = runBatch env executed ts w"
  by (induction ts arbitrary: w) (simp_all add: executeTask_store)

lemma workflowPass_store:
  "workflowPass (env\<lparr>memory_store := m\<rparr>) ts executed res w = workflowPass env ts executed res w"
  by (simp add: workflowPass_def runBatch_store)

lemma workflowLoop_store:
  "workflowLoop (env\<lparr>memory_store := m\<rparr>) ts executed res w = workflowLoop env ts executed res w"
proof (induction env ts executed res w rule: workflowLoop.induct)
  case (1 env ts executed res w)
  show ?case
  proof (cases "length executed < length ts")
    case True
    show ?thesis
    proof (cases "workflowPass env ts executed res w")
      case (Inl a)
      with True show ?thesis
        by (simp add: workflowLoop.simps [of _ ts executed res w] workflowPass_store)
    next
      case (Inr b)
      obtain ts' executed' res' w' where b: "b = (ts', executed', res', w')" by (cases b) auto
      from "1.IH" [OF True Inr, of ts' "(executed', res', w')" executed' "(res', w')" res' w'] b
      have "workflowLoop (env\<lparr>memory_store := m\<rparr>) ts' executed' res' w' =
            workflowLoop env ts' executed' res' w'" by simp
      with True Inr b show ?thesis
        by (simp add: workflowLoop.simps [of _ ts executed res w] workflowPass_store)
    qed
  next
    case False
    then show ?thesis by (simp add: workflowLoop.simps [of _ ts executed res w])
  qed
qed

lemma tryWorkflow_store: "tryWorkflow (env\<lparr>memory_store := m\<rparr>) wfl w = tryWorkflow env wfl w"
  by (simp add: tryWorkflow_def workflowLoop_store Let_def split: prod.splits sum.splits)

lemma newMCPTask_store: "newMCPTask (env\<lparr>memory_store := m\<rparr>) tool w = newMCPTask env tool w"
  by (simp add: newMCPTask_def split: prod.splits tool_item.splits)

lemma newMCPTasks_store: "newMCPTasks (env\<lparr>memory_store := m\<rparr>) tools w = newMCPTasks env tools w"
  by (induction tools arbitrary: w)
     (simp_all add: newMCPTask_store split: prod.splits sum.splits)

lemma newAITask_store: "newAITask (env\<lparr>memory_store := m\<rparr>) request w = newAITask env request w"
  by (simp add: newAITask_def split: prod.splits)

lemma analyzeAndCreateTasks_store:
  "analyzeAndCreateTasks (env\<lparr>memory_store := m\<rparr>) request w = analyzeAndCreateTasks env request w"
  by (simp add: analyzeAndCreateTasks_def newAITask_store newMCPTasks_store
        split: prod.splits sum.splits option.splits)

lemma newWorkflow_store:
  "newWorkflow (env\<lparr>memory_store := m\<rparr>) request w = newWorkflow env request w"
  by (auto simp: newWorkflow_def analyzeAndCreateTasks_store Let_def
           split: prod.splits sum.splits)

lemma createWorkflow_state_store:
  "fst (snd (createWorkflow (env\<lparr>memory_store := m\<rparr>) request s w)) =
   fst (snd (createWorkflow env request s w))"
  by (simp add: createWorkflow_def newWorkflow_store Let_def split: prod.splits sum.splits)

lemma executeWorkflow_state_store:
  "fst (snd (executeWorkflow (env\<lparr>memory_store := m\<rparr>) workflowId s w)) =
   fst (snd (executeWorkflow env workflowId s w))"
  by (simp add: executeWorkflow_def tryWorkflow_store Let_def split: prod.splits option.splits)

text \<open>
  Claim C6, as the code has it. When the call of the store in \<^verbatim>\<open>createWorkflow\<close>
  throws, \<^verbatim>\<open>createWorkflow\<close> raises that error to its caller; the workflow stays
  registered. When the call of the store in the \<^verbatim>\<open>finally\<close> block of
  \<^verbatim>\<open>executeWorkflow\<close> throws, \<^verbatim>\<open>executeWorkflow\<close> raises that error, in place of
  the result \<open>r\<close> or of the error \<open>r\<close> of the run; the workflow stays registered as
  the run left it. The failure changes no status: the state of the orchestrator after either
  call is the state it has with any other behaviour \<open>m\<close> of the store, in particular with
  a store that succeeds.
\<close>

theorem store_failure_propagates:
  "(newWorkflow env request w = (Inr wfl, w2) \<and>
    fst (memory_store env (snapshot (wf_id wfl) wfl) w2) = Some e \<longrightarrow>
      fst (createWorkflow env request s w) = Inl e \<and>
      map_of (workflows (fst (snd (createWorkflow env request s w)))) (wf_id wfl) = Some wfl \<and>
      fst (snd (createWorkflow env request s w)) =
        fst (snd (createWorkflow (env\<lparr>memory_store := m\<rparr>) request s w))) \<and>
   (map_of (workflows s) workflowId = Some wfl0 \<and> tryWorkflow env wfl0 w = (r, wfl', w1) \<and>
    fst (memory_store env (snapshot workflowId wfl') w1) = Some e' \<longrightarrow>
      fst (executeWorkflow env workflowId s w) = Inl e' \<and>
      map_of (workflows (fst (snd (executeWorkflow env workflowId s w)))) workflowId = Some wfl' \<and>
      fst (snd (executeWorkflow env workflowId s w)) =
        fst (snd (executeWorkflow (env\<lparr>memory_store := m\<rparr>) workflowId s w)))"
proof -
  have create: "newWorkflow env request w = (Inr wfl, w2) \<and>
    fst (memory_store env (snapshot (wf_id wfl) wfl) w2) = Some e \<longrightarrow>
      fst (createWorkflow env request s w) = Inl e \<and>
      map_of (workflows (fst (snd (createWorkflow env request s w)))) (wf_id wfl) = Some wfl \<and>
      fst (snd (createWorkflow env request s w)) =
        fst (snd (createWorkflow (env\<lparr>memory_store := m\<rparr>) request s w))"
  proof
    assume a: "newWorkflow env request w = (Inr wfl, w2) \<and>
      fst (memory_store env (snapshot (wf_id wfl) wfl) w2) = Some e"
    then have nw: "newWorkflow env request w = (Inr wfl, w2)" by simp
    from createWorkflow_result [OF nw, of s] a
    show "fst (createWorkflow env request s w) = Inl e \<and>
      map_of (workflows (fst (snd (createWorkflow env request s w)))) (wf_id wfl) = Some wfl \<and>
      fst (snd (createWorkflow env request s w)) =
        fst (snd (createWorkflow (env\<lparr>memory_store := m\<rparr>) request s w))"
      by (simp add: createWorkflow_state_store update_conv')
  qed
  have execute: "map_of (workflows s) workflowId = Some wfl0 \<and>
    tryWorkflow env wfl0 w = (r, wfl', w1) \<and>
    fst (memory_store env (snapshot workflowId wfl') w1) = Some e' \<longrightarrow>
      fst (executeWorkflow env workflowId s w) = Inl e' \<and>
      map_of (workflows (fst (snd (executeWorkflow env workflowId s w)))) workflowId = Some wfl' \<and>
      fst (snd (executeWorkflow env workflowId s w)) =
        fst (snd (executeWorkflow (env\<lparr>memory_store := m\<rparr>) workflowId s w))"
  proof
    assume a: "map_of (workflows s) workflowId = Some wfl0 \<and>
      tryWorkflow env wfl0 w = (r, wfl', w1) \<and>
      fst (memory_store env (snapshot workflowId wfl') w1) = Some e'"
    then have m: "map_of (workflows s) workflowId = Some wfl0"
      and t: "tryWorkflow env wfl0 w = (r, wfl', w1)" by simp_all
    from executeWorkflow_result [OF m t] a
    show "fst (executeWorkflow env workflowId s w) = Inl e' \<and>
      map_of (workflows (fst (snd (executeWorkflow env workflowId s w)))) workflowId = Some wfl' \<and>
      fst (snd (executeWorkflow env workflowId s w)) =
        fst (snd (executeWorkflow (env\<lparr>memory_store := m\<rparr>) workflowId s w))"
      by (simp add: executeWorkflow_state_store update_conv')
  qed
  from create execute show ?thesis by (rule conjI)
qed

lemma brokenStore_quiet: "brokenStoreEnv\<lparr>memory_store := (\<lambda>e w. (None, w))\<rparr> = quietEnv"
  by (simp add: brokenStoreEnv_def quietEnv_def)

lemma lateBroken_quiet: "lateBrokenEnv\<lparr>memory_store := (\<lambda>e w. (None, w))\<rparr> = quietEnv"
  by (simp add: lateBrokenEnv_def quietEnv_def)

lemma newWorkflow_prompt:
  "newWorkflow brokenStoreEnv promptRequest world0 = (Inr promptWorkflow, world0\<lparr>draws := 2\<rparr>)"
  by (simp add: eval_defs promptRequest_simps promptTask_def promptWorkflow_def)

text \<open>
  The run of the workflow of \<open>promptRequest\<close>, which succeeds, and the workflow it
  leaves.
\<close>

definition promptDone :: workflow where
  "promptDone =
     promptWorkflow\<lparr>wf_tasks := [promptTask\<lparr>task_status := Completed,
          task_startedAt := Some 1000, task_completedAt := Some 1001,
          task_result := Some ''ok''\<rparr>],
       wf_status := Completed, wf_startedAt := Some 1000, wf_completedAt := Some 1001,
       wf_result := Some [(''task_ai_1000_r1'', ''ok'')]\<rparr>"

lemma tryWorkflow_prompt:
  "tryWorkflow lateBrokenEnv promptWorkflow (world0\<lparr>draws := 2\<rparr>) =
     (Inr [(''task_ai_1000_r1'', ''ok'')], promptDone, \<lparr>calls = 1, draws = 2\<rparr>)"
  by (simp add: eval_defs promptWorkflow_def promptTask_def promptRequest_simps promptDone_def)

text \<open>
  In \<open>brokenStoreEnv\<close> the store throws in \<^verbatim>\<open>createWorkflow\<close>. In
  \<open>lateBrokenEnv\<close> it stores the new workflow and throws in the \<^verbatim>\<open>finally\<close> block
  of \<^verbatim>\<open>executeWorkflow\<close>, after a run that succeeded.
\<close>

theorem store_failure_propagates_witness:
  "newWorkflow brokenStoreEnv promptRequest world0 = (Inr promptWorkflow, world0\<lparr>draws := 2\<rparr>) \<and>
   fst (memory_store brokenStoreEnv (snapshot (wf_id promptWorkflow) promptWorkflow)
      (world0\<lparr>draws := 2\<rparr>)) = Some storageError \<and>
   fst (createWorkflow brokenStoreEnv promptRequest newOrch world0) = Inl storageError \<and>
   fst (snd (createWorkflow brokenStoreEnv promptRequest newOrch world0)) =
     fst (snd (createWorkflow quietEnv promptRequest newOrch world0)) \<and>
   map_of (workflows promptState) ''workflow_1000_r0'' = Some promptWorkflow \<and>
   tryWorkflow lateBrokenEnv promptWorkflow (world0\<lparr>draws := 2\<rparr>) =
     (Inr [(''task_ai_1000_r1'', ''ok'')], promptDone, \<lparr>calls = 1, draws = 2\<rparr>) \<and>
   fst (memory_store lateBrokenEnv (snapshot ''workflow_1000_r0'' promptDone)
      \<lparr>calls = 1, draws = 2\<rparr>) = Some storageError \<and>
   fst (executeWorkflow lateBrokenEnv ''workflow_1000_r0'' promptState (world0\<lparr>draws := 2\<rparr>)) =
     Inl storageError \<and>
   map_of (workflows (fst (snd (executeWorkflow lateBrokenEnv ''workflow_1000_r0'' promptState
      (world0\<lparr>draws := 2\<rparr>))))) ''workflow_1000_r0'' = Some promptDone \<and>
   fst (snd (executeWorkflow lateBrokenEnv ''workflow_1000_r0'' promptState (world0\<lparr>draws := 2\<rparr>))) =
     fst (snd (executeWorkflow quietEnv ''workflow_1000_r0'' promptState (world0\<lparr>draws := 2\<rparr>)))"
proof -
  have s1: "fst (memory_store brokenStoreEnv (snapshot (wf_id promptWorkflow) promptWorkflow)
      (world0\<lparr>draws := 2\<rparr>)) = Some storageError"
    by (simp add: brokenStoreEnv_def storageError_def)
  have p: "map_of (workflows promptState) ''workflow_1000_r0'' = Some promptWorkflow"
    by (simp add: promptState_def)
  have s2: "fst (memory_store lateBrokenEnv (snapshot ''workflow_1000_r0'' promptDone)
      \<lparr>calls = 1, draws = 2\<rparr>) = Some storageError"
    by (simp add: lateBrokenEnv_def snapshot_def promptDone_def)
  from store_failure_propagates [where env = brokenStoreEnv and request = promptRequest
      and w = world0 and wfl = promptWorkflow and ?w2.0 = "world0\<lparr>draws := 2\<rparr>"
      and e = storageError and s = newOrch and m = "\<lambda>e w. (None, w)"
      and workflowId = "''workflow_1000_r0''" and ?wfl0.0 = promptWorkflow
      and r = "Inr []" and wfl' = promptDone and ?w1.0 = world0 and e' = storageError]
    newWorkflow_prompt s1
  have c: "fst (createWorkflow brokenStoreEnv promptRequest newOrch world0) = Inl storageError \<and>
     fst (snd (createWorkflow brokenStoreEnv promptRequest newOrch world0)) =
       fst (snd (createWorkflow quietEnv promptRequest newOrch world0))"
    unfolding brokenStore_quiet by blast
  from store_failure_propagates [where env = lateBrokenEnv and w = "world0\<lparr>draws := 2\<rparr>"
      and request = promptRequest and wfl = promptWorkflow and ?w2.0 = world0
      and e = storageError and s = promptState and m = "\<lambda>e w. (None, w)" and workflowId = "''workflow_1000_r0''"
      and ?wfl0.0 = promptWorkflow and r = "Inr [(''task_ai_1000_r1'', ''ok'')]"
      and wfl' = promptDone and ?w1.0 = "\<lparr>calls = 1, draws = 2\<rparr>" and e' = storageError]
    p tryWorkflow_prompt s2
  have x: "fst (executeWorkflow lateBrokenEnv ''workflow_1000_r0'' promptState
        (world0\<lparr>draws := 2\<rparr>)) = Inl storageError \<and>
     map_of (workflows (fst (snd (executeWorkflow lateBrokenEnv ''workflow_1000_r0'' promptState
        (world0\<lparr>draws := 2\<rparr>))))) ''workflow_1000_r0'' = Some promptDone \<and>
     fst (snd (executeWorkflow lateBrokenEnv ''workflow_1000_r0'' promptState
        (world0\<lparr>draws := 2\<rparr>))) =
       fst (snd (executeWorkflow quietEnv ''workflow_1000_r0'' promptState (world0\<lparr>draws := 2\<rparr>)))"
    unfolding lateBroken_quiet by blast
  from newWorkflow_prompt s1 c p tryWorkflow_prompt s2 x show ?thesis by blast
qed

text \<open>
  Claim C6 as stated: a store that throws never makes workflow creation or execution
  raise. With the store of \<open>brokenStoreEnv\<close> both raise the error of the store.
\<close>

theorem store_failure_counterexample:
  "fst (createWorkflow brokenStoreEnv promptRequest newOrch world0) =
     Inl (Error ''Memory storage failed: Error: connection lost'') \<and>
   fst (executeWorkflow brokenStoreEnv ''workflow_1000_r0'' promptState world0) =
     Inl (Error ''Memory storage failed: Error: connection lost'')"
  by (simp add: eval_defs promptRequest_simps promptState_def promptWorkflow_def promptTask_def)

section \<open>Adaptive concurrency (claim C7)\<close>

text \<open>
  The arithmetic of the evaluation: below \<open>2 ^ 53\<close> the sums are exact, and at
  \<open>2 ^ 54\<close> adding 2 changes nothing any more.
\<close>

lemma bitlen_le: "n < 2 ^ k \<Longrightarrow> bitlen n \<le> k"
proof (induction k arbitrary: n)
  case 0
  then show ?case by (simp add: bitlen.simps)
next
  case (Suc k)
  show ?case
  proof (cases "n = 0")
    case True
    then show ?thesis by (simp add: bitlen.simps)
  next
    case False
    from Suc.prems have "n div 2 < 2 ^ k" by simp
    then have "bitlen (n div 2) \<le> k" by (rule Suc.IH)
    with False show ?thesis by (simp add: bitlen.simps [of n])
  qed
qed

lemma toDouble_exact:
  assumes "\<bar>n\<bar> < 2 ^ 53"
  shows "toDouble n = n"
proof -
  from assms have "nat \<bar>n\<bar> < 2 ^ 53" by (simp add: nat_less_iff)
  then have "bitlen (nat \<bar>n\<bar>) \<le> 53" by (rule bitlen_le)
  then have "bitlen (nat \<bar>n\<bar>) - 53 = 0" by simp
  then show ?thesis by (simp add: toDouble_def Let_def mult_sgn_abs)
qed

lemma jsAdd_exact: "\<bar>a + b\<bar> < 2 ^ 53 \<Longrightarrow> jsAdd a b = a + b"
  by (simp add: jsAdd_def toDouble_exact)

lemma bitlen_eq: "2 ^ k \<le> n \<Longrightarrow> n < 2 ^ Suc k \<Longrightarrow> bitlen n = Suc k"
proof (induction k arbitrary: n)
  case 0
  then have "n = 1" by simp
  then show ?case by (simp add: bitlen.simps [of "Suc 0"] bitlen.simps [of 0])
next
  case (Suc k)
  from Suc.prems have "2 ^ k \<le> n div 2" "n div 2 < 2 ^ Suc k" by simp_all
  then have "bitlen (n div 2) = Suc k" by (rule Suc.IH)
  moreover from Suc.prems have "n \<noteq> 0" by auto
  ultimately show ?case by (simp add: bitlen.simps [of n])
qed

lemma jsAdd_saturates: "jsAdd (2 ^ 54) 2 = 2 ^ 54"
proof -
  have "bitlen (nat \<bar>2 ^ 54 + 2\<bar>) = 55"
    using bitlen_eq [of 54 "nat \<bar>2 ^ 54 + 2\<bar>"] by simp
  then show ?thesis by (simp add: jsAdd_def toDouble_def Let_def)
qed




section \<open>Result and error of a task (claim C8)\<close>

lemma settleTask_writes:
  "(\<forall>r. out = Inr r \<longrightarrow>
      task_result (settleTask now out t) = Some r \<and> task_error (settleTask now out t) = task_error t) \<and>
   (\<forall>e. out = Inl e \<longrightarrow>
      task_error (settleTask now out t) = Some (err_message e) \<and>
      task_result (settleTask now out t) = task_result t)"
  by (cases out) (simp_all add: settleTask_def Let_def)

lemma applyTaskEvent_keeps:
  "(task_result t \<noteq> None \<longrightarrow> task_result (applyTaskEvent ev t) \<noteq> None) \<and>
   (task_error t \<noteq> None \<longrightarrow> task_error (applyTaskEvent ev t) \<noteq> None)"
  by (cases ev)
     (auto simp: startTask_def settleTask_def healFailed_def healStuck_def cancelStuck_def Let_def
           split: sum.splits)

lemma taskEvents_keep:
  "(task_result t \<noteq> None \<longrightarrow> task_result (taskEvents evs t) \<noteq> None) \<and>
   (task_error t \<noteq> None \<longrightarrow> task_error (taskEvents evs t) \<noteq> None)"
  unfolding taskEvents_def
proof (induction evs arbitrary: t)
  case Nil
  then show ?case by simp
next
  case (Cons ev evs)
  from applyTaskEvent_keeps [of t ev] Cons.IH [of "applyTaskEvent ev t"] show ?case by auto
qed

text \<open>
  Claim C8, as the code has it. A run of the executor that succeeds writes \<^verbatim>\<open>result\<close> and
  leaves \<^verbatim>\<open>error\<close> as it was; a run that fails writes \<^verbatim>\<open>error\<close> and leaves
  \<^verbatim>\<open>result\<close> as it was; and no executor run or sweep ever clears a field that is set.
  So a task run once from a new record has exactly one of the two, and a task that failed
  before it succeeds keeps its old \<^verbatim>\<open>error\<close> beside its \<^verbatim>\<open>result\<close>.
\<close>

theorem result_and_error_written:
  assumes "executeTask env t w = (t', out, w')"
  shows "(\<forall>r. out = Inr r \<longrightarrow> task_result t' = Some r \<and> task_error t' = task_error t) \<and>
         (\<forall>e. out = Inl e \<longrightarrow>
            task_error t' = Some (err_message e) \<and> task_result t' = task_result t) \<and>
         (task_result t \<noteq> None \<longrightarrow> task_result (taskEvents evs t) \<noteq> None) \<and>
         (task_error t \<noteq> None \<longrightarrow> task_error (taskEvents evs t) \<noteq> None)"
proof -
  from assms have t': "t' = settleTask (date_now env w') out (startTask (date_now env w) t)"
    by (auto simp: executeTask_def Let_def split: prod.splits)
  have "task_result (startTask (date_now env w) t) = task_result t"
    "task_error (startTask (date_now env w) t) = task_error t"
    by (simp_all add: startTask_def)
  with settleTask_writes [of out "date_now env w'" "startTask (date_now env w) t"] t'
    taskEvents_keep [of t evs]
  show ?thesis by simp
qed

lemma executeTask_failedOnce:
  "executeTask (flakyEnv 1) failedOnceTask \<lparr>calls = 1, draws = 2\<rparr> =
     (failedOnceTask\<lparr>task_status := Completed, task_startedAt := Some 1001,
        task_completedAt := Some 1002, task_result := Some ''ok''\<rparr>,
      Inr ''ok'', \<lparr>calls = 2, draws = 2\<rparr>)"
  by (simp add: eval_defs failedOnceTask_def promptTask_def promptRequest_simps)

theorem result_and_error_written_witness:
  "executeTask (flakyEnv 1) failedOnceTask \<lparr>calls = 1, draws = 2\<rparr> =
     (failedOnceTask\<lparr>task_status := Completed, task_startedAt := Some 1001,
        task_completedAt := Some 1002, task_result := Some ''ok''\<rparr>,
      Inr ''ok'', \<lparr>calls = 2, draws = 2\<rparr>) \<and>
   task_result (failedOnceTask\<lparr>task_status := Completed, task_startedAt := Some 1001,
        task_completedAt := Some 1002, task_result := Some ''ok''\<rparr>) = Some ''ok'' \<and>
   task_error (failedOnceTask\<lparr>task_status := Completed, task_startedAt := Some 1001,
        task_completedAt := Some 1002, task_result := Some ''ok''\<rparr>) = Some ''boom'' \<and>
   task_error failedOnceTask \<noteq> None \<and>
   task_error (taskEvents [Requeued, Started 1001, Settled 1002 (Inr ''ok'')] failedOnceTask) \<noteq> None"
  using result_and_error_written [OF executeTask_failedOnce,
      of "[Requeued, Started 1001, Settled 1002 (Inr ''ok'')]"]
    executeTask_failedOnce
  by (simp add: failedOnceTask_def)

text \<open>
  Claim C8 as stated: a task that fails, is retried and then succeeds ends with
  \<^verbatim>\<open>error\<close> unset. Here the first call to the AI service throws; \<^verbatim>\<open>orchestrate\<close>
  fails, and a second \<^verbatim>\<open>executeWorkflow\<close> on the same workflow runs the task again,
  with success. The task ends with both fields set.
\<close>

lemma executeWorkflow_again:
  "overview (fst (snd (executeWorkflow (flakyEnv 1) ''workflow_1000_r0''
      (newOrch\<lparr>workflows := [(''workflow_1000_r0'', failedOnceWorkflow)]\<rparr>)
      \<lparr>calls = 1, draws = 2\<rparr>))) =
   [(''workflow_1000_r0'', Completed,
       [(''task_ai_1000_r1'', Completed, 1, Some ''ok'', Some ''boom'')])]"
  by (simp add: eval_defs overview_def failedOnceWorkflow_def failedOnceTask_def
        promptWorkflow_def promptTask_def promptRequest_simps)

theorem result_and_error_counterexample:
  "overview (fst (run (flakyEnv 1) [Orchestrate promptRequest, ExecuteWorkflow ''workflow_1000_r0'']
       (newOrch, world0))) =
     [(''workflow_1000_r0'', Completed,
       [(''task_ai_1000_r1'', Completed, 1, Some ''ok'', Some ''boom'')])]"
  using executeWorkflow_again orchestrate_prompt_fails [of 0]
  by (simp add: run_def step_def)

section \<open>The task map is never written (claim C9)\<close>

text \<open>
  Claim C9. \<^verbatim>\<open>createWorkflow\<close> leaves the task map as it is, and in every state \<open>s\<close>
  that a run of the service reaches from its constructor the task map is empty. So for
  every id, also the id of a task of a created workflow, \<^verbatim>\<open>getTask\<close> finds nothing,
  \<^verbatim>\<open>listTasks\<close> lists nothing, a pass of the task queue dispatches nothing and changes
  nothing, and the self-healing timer changes nothing.
\<close>

theorem task_map_never_written:
  assumes "s = fst (run env evs (constructor a b c d, w))"
  shows "tasks (fst (snd (createWorkflow env request s w'))) = tasks s \<and>
         tasks s = [] \<and> getTask s taskId = None \<and> listTasks s st = [] \<and>
         dispatched s = [] \<and> processTaskQueue env s w' = s \<and> selfHealingTick env s w' = s"
proof -
  have "tasks (fst (constructor a b c d, w)) = []" by (simp add: constructor_def)
  then have "tasks s = []" unfolding assms by (rule run_tasks_empty)
  then show ?thesis by (simp add: empty_task_map createWorkflow_tasks)
qed

text \<open>
  A run: a request with a prompt is orchestrated, the autonomous mode is started, the task
  queue makes a pass and the self-healing timer ticks.
\<close>

definition sweepRun :: "event list" where
  "sweepRun = [Orchestrate promptRequest, StartAutonomousMode, ProcessTaskQueue, SelfHealingTick]"

lemma overview_sweepRun:
  "overview (fst (run quietEnv sweepRun (newOrch, world0))) =
     [(''workflow_1000_r0'', Completed, [(''task_ai_1000_r1'', Completed, 0, Some ''ok'', None)])]"
  by (simp add: run_def step_def sweepRun_def orchestrate_prompt_ok overview_def
        startAutonomousMode_def processTaskQueue_def dispatched_def pendingTasks_def
        selfHealingTick_def newOrch_simps promptWorkflow_def promptTask_def newTask_def)

theorem task_map_never_written_witness:
  "overview (fst (run quietEnv sweepRun (newOrch, world0))) =
     [(''workflow_1000_r0'', Completed, [(''task_ai_1000_r1'', Completed, 0, Some ''ok'', None)])] \<and>
   tasks (fst (run quietEnv sweepRun (newOrch, world0))) = [] \<and>
   getTask (fst (run quietEnv sweepRun (newOrch, world0))) ''task_ai_1000_r1'' = None \<and>
   listTasks (fst (run quietEnv sweepRun (newOrch, world0))) None = [] \<and>
   dispatched (fst (run quietEnv sweepRun (newOrch, world0))) = []"
  using task_map_never_written [of "fst (run quietEnv sweepRun (newOrch, world0))" quietEnv
      sweepRun None None None None world0 promptRequest world0 "''task_ai_1000_r1''" None]
    overview_sweepRun
  by (simp add: newOrch_def)

section \<open>A request that asks for nothing (claim C10)\<close>

lemma wireDependencies_Nil: "wireDependencies items [] = Inr []"
  by (induction items)
     (simp_all add: wireDependency_def findById_def split: dep_item.splits option.splits)

lemma analyzeAndCreateTasks_empty:
  assumes "\<not> truthy (req_prompt request)" and "req_messages request = None"
    and "req_tools request = None" and "req_dependencies request \<noteq> NotIterable"
  shows "analyzeAndCreateTasks env request w = (Inr [], w)"
  using assms
  by (cases "req_dependencies request")
     (simp_all add: analyzeAndCreateTasks_def truthyDependencies_def setupTaskDependencies_def
        wireDependencies_Nil)

lemma workflowLoop_Nil: "workflowLoop env [] [] [] w = (Inr [], [], w)"
  by (simp add: workflowLoop.simps)

lemma tryWorkflow_Nil:
  "wf_tasks wfl = [] \<Longrightarrow>
   tryWorkflow env wfl w =
     (Inr [], wfl\<lparr>wf_status := Completed, wf_startedAt := Some (date_now env w),
                  wf_completedAt := Some (date_now env w), wf_result := Some []\<rparr>, w)"
  by (simp add: tryWorkflow_def workflowLoop_Nil)

text \<open>
  Claim C10, as the code has it. Take a request with no prompt (absent or empty), no
  messages and no tools array, whose \<^verbatim>\<open>dependencies\<close> are falsy or iterable.
  \<^verbatim>\<open>analyzeAndCreateTasks\<close> returns no task. \<^verbatim>\<open>createWorkflow\<close> registers, under the
  id it generates, a pending workflow with an empty task list; it returns that workflow,
  unless its call of the store throws, and then it raises the error of the store.
  \<^verbatim>\<open>executeWorkflow\<close> on that workflow runs through its \<^verbatim>\<open>try\<close> block at once, with
  the empty result map and without the error of an empty ready set; it leaves the workflow
  \<^verbatim>\<open>completed\<close> with the empty result map, and returns that map, unless its call of the
  store throws, and then it raises the error of the store.
\<close>

theorem empty_request:
  assumes "\<not> truthy (req_prompt request)" and "req_messages request = None"
    and "req_tools request = None" and "req_dependencies request \<noteq> NotIterable"
    and "createWorkflow env request s w = (r, s1, w1)"
    and "workflowId = ''workflow_'' @ dec (date_now env w) @ ''_'' @ fst (random36 env w)"
    and "executeWorkflow env workflowId s1 w1 = (r2, s2, w2)"
  shows "fst (analyzeAndCreateTasks env request w) = Inr [] \<and>
         (\<exists>wfl wfl2 wc.
            newWorkflow env request w = (Inr wfl, wc) \<and> wf_id wfl = workflowId \<and>
            wf_tasks wfl = [] \<and> wf_status wfl = Pending \<and>
            map_of (workflows s1) workflowId = Some wfl \<and>
            r = (case fst (memory_store env (snapshot workflowId wfl) wc) of
                   Some e \<Rightarrow> Inl e | None \<Rightarrow> Inr wfl) \<and>
            tryWorkflow env wfl w1 = (Inr [], wfl2, w1) \<and>
            wf_tasks wfl2 = [] \<and> wf_status wfl2 = Completed \<and> wf_result wfl2 = Some [] \<and>
            map_of (workflows s2) workflowId = Some wfl2 \<and>
            r2 = (case fst (memory_store env (snapshot workflowId wfl2) w1) of
                    Some e \<Rightarrow> Inl e | None \<Rightarrow> Inr []))"
proof -
  obtain rr wc where rr: "random36 env w = (rr, wc)" by (cases "random36 env w") auto
  with assms(6) have wid: "workflowId = ''workflow_'' @ dec (date_now env w) @ ''_'' @ rr" by simp
  let ?wfl = "\<lparr>wf_id = workflowId,
      wf_name = orElse (req_name request) (''Workflow '' @ workflowId),
      wf_description = req_description request, wf_tasks = [], wf_status = Pending,
      wf_createdAt = date_now env wc, wf_startedAt = None, wf_completedAt = None,
      wf_result = None, wf_error = None\<rparr>"
  let ?wfl2 = "?wfl\<lparr>wf_status := Completed, wf_startedAt := Some (date_now env w1),
      wf_completedAt := Some (date_now env w1), wf_result := Some []\<rparr>"
  have nw: "newWorkflow env request w = (Inr ?wfl, wc)"
    using rr wid analyzeAndCreateTasks_empty [OF assms(1-4), of env wc]
    by (simp add: newWorkflow_def Let_def)
  have id: "wf_id ?wfl = workflowId" by simp
  from createWorkflow_result [OF nw, of s] assms(5)
  have r: "r = (case fst (memory_store env (snapshot workflowId ?wfl) wc) of
                  Some e \<Rightarrow> Inl e | None \<Rightarrow> Inr ?wfl)"
    and s1: "s1 = s\<lparr>workflows := AList.update workflowId ?wfl (workflows s)\<rparr>"
    by simp_all
  have m1: "map_of (workflows s1) workflowId = Some ?wfl" by (simp add: s1 update_conv')
  have tw: "tryWorkflow env ?wfl w1 = (Inr [], ?wfl2, w1)"
    by (simp add: tryWorkflow_Nil)
  from executeWorkflow_result [OF m1 tw] assms(7)
  have r2: "r2 = (case fst (memory_store env (snapshot workflowId ?wfl2) w1) of
                    Some e \<Rightarrow> Inl e | None \<Rightarrow> Inr [])"
    and s2: "s2 = s1\<lparr>workflows := AList.update workflowId ?wfl2 (workflows s1)\<rparr>"
    by simp_all
  have m2: "map_of (workflows s2) workflowId = Some ?wfl2" by (simp add: s2 update_conv')
  have a: "fst (analyzeAndCreateTasks env request w) = Inr []"
    by (simp add: analyzeAndCreateTasks_empty [OF assms(1-4)])
  have "newWorkflow env request w = (Inr ?wfl, wc) \<and> wf_id ?wfl = workflowId \<and>
        wf_tasks ?wfl = [] \<and> wf_status ?wfl = Pending \<and>
        map_of (workflows s1) workflowId = Some ?wfl \<and>
        r = (case fst (memory_store env (snapshot workflowId ?wfl) wc) of
               Some e \<Rightarrow> Inl e | None \<Rightarrow> Inr ?wfl) \<and>
        tryWorkflow env ?wfl w1 = (Inr [], ?wfl2, w1) \<and>
        wf_tasks ?wfl2 = [] \<and> wf_status ?wfl2 = Completed \<and> wf_result ?wfl2 = Some [] \<and>
        map_of (workflows s2) workflowId = Some ?wfl2 \<and>
        r2 = (case fst (memory_store env (snapshot workflowId ?wfl2) w1) of
                Some e \<Rightarrow> Inl e | None \<Rightarrow> Inr [])"
    using nw m1 r tw m2 r2 by simp
  then have "\<exists>wfl wfl2 wc.
        newWorkflow env request w = (Inr wfl, wc) \<and> wf_id wfl = workflowId \<and>
        wf_tasks wfl = [] \<and> wf_status wfl = Pending \<and>
        map_of (workflows s1) workflowId = Some wfl \<and>
        r = (case fst (memory_store env (snapshot workflowId wfl) wc) of
               Some e \<Rightarrow> Inl e | None \<Rightarrow> Inr wfl) \<and>
        tryWorkflow env wfl w1 = (Inr [], wfl2, w1) \<and>
        wf_tasks wfl2 = [] \<and> wf_status wfl2 = Completed \<and> wf_result wfl2 = Some [] \<and>
        map_of (workflows s2) workflowId = Some wfl2 \<and>
        r2 = (case fst (memory_store env (snapshot workflowId wfl2) w1) of
                Some e \<Rightarrow> Inl e | None \<Rightarrow> Inr [])"
    by (intro exI)
  with a show ?thesis by simp
qed

text \<open>
  A request with an empty prompt, a name, a priority and a list of dependencies (one of
  them \<^verbatim>\<open>null\<close>), but nothing to run.
\<close>

definition emptyRequest :: request where
  "emptyRequest =
     \<lparr>req_name = Some ''nothing to do'', req_description = None, req_prompt = Some [],
      req_messages = None, req_options = None, req_tools = None, req_priority = Some ''high'',
      req_dependencies = Iterable [NoEdge JSNull, Edge (Some ''a'') (Some ''b'')]\<rparr>"

definition emptyWorkflow :: workflow where
  "emptyWorkflow =
     \<lparr>wf_id = ''workflow_1000_r0'', wf_name = ''nothing to do'', wf_description = None,
      wf_tasks = [], wf_status = Pending, wf_createdAt = 1000, wf_startedAt = None,
      wf_completedAt = None, wf_result = None, wf_error = None\<rparr>"

definition emptyState :: orch where
  "emptyState = newOrch\<lparr>workflows := [(''workflow_1000_r0'', emptyWorkflow)]\<rparr>"

lemma emptyRequest_simps:
  "\<not> truthy (req_prompt emptyRequest)" "req_messages emptyRequest = None"
  "req_tools emptyRequest = None" "req_dependencies emptyRequest \<noteq> NotIterable"
  by (simp_all add: emptyRequest_def truthy_def)

lemma createWorkflow_emptyRequest:
  "createWorkflow quietEnv emptyRequest newOrch world0 =
     (Inr emptyWorkflow, emptyState, world0\<lparr>draws := 1\<rparr>)"
  by (simp add: eval_defs emptyRequest_def emptyWorkflow_def emptyState_def)

lemma executeWorkflow_emptyWorkflow:
  "executeWorkflow quietEnv ''workflow_1000_r0'' emptyState (world0\<lparr>draws := 1\<rparr>) =
   (Inr [],
    newOrch\<lparr>workflows := [(''workflow_1000_r0'',
      emptyWorkflow\<lparr>wf_status := Completed, wf_startedAt := Some 1000,
        wf_completedAt := Some 1000, wf_result := Some []\<rparr>)]\<rparr>,
    world0\<lparr>draws := 1\<rparr>)"
  by (simp add: eval_defs emptyWorkflow_def emptyState_def)

theorem empty_request_witness:
  "\<not> truthy (req_prompt emptyRequest) \<and> req_messages emptyRequest = None \<and>
   req_tools emptyRequest = None \<and> req_dependencies emptyRequest \<noteq> NotIterable \<and>
   createWorkflow quietEnv emptyRequest newOrch world0 =
     (Inr emptyWorkflow, emptyState, world0\<lparr>draws := 1\<rparr>) \<and>
   ''workflow_1000_r0'' =
     ''workflow_'' @ dec (date_now quietEnv world0) @ ''_'' @ fst (random36 quietEnv world0) \<and>
   executeWorkflow quietEnv ''workflow_1000_r0'' emptyState (world0\<lparr>draws := 1\<rparr>) =
   (Inr [],
    newOrch\<lparr>workflows := [(''workflow_1000_r0'',
      emptyWorkflow\<lparr>wf_status := Completed, wf_startedAt := Some 1000,
        wf_completedAt := Some 1000, wf_result := Some []\<rparr>)]\<rparr>,
    world0\<lparr>draws := 1\<rparr>) \<and>
   fst (analyzeAndCreateTasks quietEnv emptyRequest world0) = Inr []"
proof -
  have h5: "''workflow_1000_r0'' =
     ''workflow_'' @ dec (date_now quietEnv world0) @ ''_'' @ fst (random36 quietEnv world0)"
    by (simp add: quietEnv_def world0_def dec.simps)
  from empty_request [OF emptyRequest_simps createWorkflow_emptyRequest h5
      executeWorkflow_emptyWorkflow]
    emptyRequest_simps h5 createWorkflow_emptyRequest executeWorkflow_emptyWorkflow
  show ?thesis by simp
qed

text \<open>
  Claim C10 as stated speaks of every request without prompt, messages and tools. When the
  \<^verbatim>\<open>dependencies\<close> of such a request are an object that cannot be iterated,
  \<^verbatim>\<open>createWorkflow\<close> throws a \<^verbatim>\<open>TypeError\<close> and registers nothing. And when the
  store throws, \<^verbatim>\<open>createWorkflow\<close> returns no workflow, or \<^verbatim>\<open>executeWorkflow\<close> no
  result map: each raises the error of the store.
\<close>

definition objectDependenciesRequest :: request where
  "objectDependenciesRequest =
     \<lparr>req_name = None, req_description = None, req_prompt = None, req_messages = None,
      req_options = None, req_tools = None, req_priority = None,
      req_dependencies = NotIterable\<rparr>"

theorem empty_request_counterexample:
  "\<not> truthy (req_prompt objectDependenciesRequest) \<and>
   req_messages objectDependenciesRequest = None \<and>
   req_tools objectDependenciesRequest = None \<and>
   createWorkflow quietEnv objectDependenciesRequest newOrch world0 =
     (Inl (TypeError ''dependencies is not iterable''), newOrch, world0\<lparr>draws := 1\<rparr>) \<and>
   fst (createWorkflow brokenStoreEnv emptyRequest newOrch world0) = Inl storageError \<and>
   fst (orchestrate lateBrokenEnv emptyRequest newOrch world0) = Inl storageError \<and>
   overview (fst (snd (orchestrate lateBrokenEnv emptyRequest newOrch world0))) =
     [(''workflow_1000_r0'', Completed, [])]"
proof -
  have c1: "createWorkflow quietEnv objectDependenciesRequest newOrch world0 =
     (Inl (TypeError ''dependencies is not iterable''), newOrch, world0\<lparr>draws := 1\<rparr>)"
    by (simp add: createWorkflow_def newWorkflow_def analyzeAndCreateTasks_def
          truthyDependencies_def setupTaskDependencies_def objectDependenciesRequest_def
          truthy_def quietEnv_def world0_def)
  have c2: "fst (createWorkflow brokenStoreEnv emptyRequest newOrch world0) = Inl storageError"
    by (simp add: eval_defs emptyRequest_def storageError_def)
  have cw: "createWorkflow lateBrokenEnv emptyRequest newOrch world0 =
     (Inr emptyWorkflow, emptyState, world0\<lparr>draws := 1\<rparr>)"
    by (simp add: eval_defs lateBrokenEnv_def emptyRequest_def emptyWorkflow_def emptyState_def)
  have ew: "executeWorkflow lateBrokenEnv ''workflow_1000_r0'' emptyState (world0\<lparr>draws := 1\<rparr>) =
     (Inl storageError,
      newOrch\<lparr>workflows := [(''workflow_1000_r0'',
        emptyWorkflow\<lparr>wf_status := Completed, wf_startedAt := Some 1000,
          wf_completedAt := Some 1000, wf_result := Some []\<rparr>)]\<rparr>,
      world0\<lparr>draws := 1\<rparr>)"
    by (simp add: eval_defs lateBrokenEnv_def emptyWorkflow_def emptyState_def storageError_def)
  have c3: "orchestrate lateBrokenEnv emptyRequest newOrch world0 =
     (Inl storageError,
      newOrch\<lparr>workflows := [(''workflow_1000_r0'',
        emptyWorkflow\<lparr>wf_status := Completed, wf_startedAt := Some 1000,
          wf_completedAt := Some 1000, wf_result := Some []\<rparr>)]\<rparr>,
      world0\<lparr>draws := 1\<rparr>)"
    using ew by (simp add: orchestrate_def cw emptyWorkflow_def)
  have h: "\<not> truthy (req_prompt objectDependenciesRequest)"
    "req_messages objectDependenciesRequest = None" "req_tools objectDependenciesRequest = None"
    by (simp_all add: objectDependenciesRequest_def truthy_def)
  have ov: "overview (fst (snd (orchestrate lateBrokenEnv emptyRequest newOrch world0))) =
     [(''workflow_1000_r0'', Completed, [])]"
    unfolding c3 by (simp add: overview_def emptyWorkflow_def)
  from h c1 c2 c3 ov show ?thesis by simp
qed

end

